theory Spec2Isabelle
  imports Main
begin

section \<open>SimBatch: a batch driver for BondMachine simulations\<close>

text \<open>
  A shallow embedding of \<^verbatim>\<open>simbatch.py\<close>, from the point where the input and the output
  files are opened (line 131) to the end of the row loop (line 245). Text is a list of
  characters, each character a code point below 256. A dictionary is the list of its items
  in insertion order. The shell and numpy's string-to-float32 conversion are outside the
  program and are parameters of the model.
\<close>

subsection \<open>Python strings\<close>

text \<open>\<^verbatim>\<open>str.isspace\<close> on the code points below 256.\<close>

definition py_isspace :: "char \<Rightarrow> bool" where
  "py_isspace c \<longleftrightarrow>
     c \<in> set [CHR 0x09, CHR 0x0A, CHR 0x0B, CHR 0x0C, CHR 0x0D, CHR 0x1C, CHR 0x1D,
               CHR 0x1E, CHR 0x1F, CHR 0x20, CHR 0x85, CHR 0xA0]"

text \<open>\<^verbatim>\<open>s.strip()\<close> and \<^verbatim>\<open>s.strip(chars)\<close>.\<close>

definition py_strip :: "string \<Rightarrow> string" where
  "py_strip s = rev (dropWhile py_isspace (rev (dropWhile py_isspace s)))"

definition py_strip_chars :: "string \<Rightarrow> string \<Rightarrow> string" where
  "py_strip_chars chars s =
     rev (dropWhile (\<lambda>c. c \<in> set chars) (rev (dropWhile (\<lambda>c. c \<in> set chars) s)))"

text \<open>
  \<^verbatim>\<open>s.split(sep)\<close> for a separator of one character, the only kind the program uses
  (\<^verbatim>\<open>","\<close> and \<^verbatim>\<open>' '\<close>). The result of Python's split with an explicit separator has
  one more element than the string has separators.
\<close>

fun py_split :: "char \<Rightarrow> string \<Rightarrow> string list" where
  "py_split sep [] = [[]]"
| "py_split sep (c # cs) =
     (if c = sep then [] # py_split sep cs
      else (case py_split sep cs of
              [] \<Rightarrow> [[c]]
            | w # ws \<Rightarrow> (c # w) # ws))"

text \<open>\<^verbatim>\<open>sep.join(parts)\<close>.\<close>

fun py_join :: "string \<Rightarrow> string list \<Rightarrow> string" where
  "py_join sep [] = []"
| "py_join sep [x] = x"
| "py_join sep (x # y # ys) = x @ sep @ py_join sep (y # ys)"

text \<open>
  \<^verbatim>\<open>s.replace(old, new)\<close>: the string is scanned from the left, every occurrence of
  \<^verbatim>\<open>old\<close> found is replaced and the scan goes on after it. An empty \<^verbatim>\<open>old\<close> matches
  between all characters.
\<close>

function replace_scan :: "string \<Rightarrow> string \<Rightarrow> string \<Rightarrow> string" where
  "replace_scan old new [] = []"
| "replace_scan old new (c # cs) =
     (if old \<noteq> [] \<and> take (length old) (c # cs) = old
      then new @ replace_scan old new (drop (length old) (c # cs))
      else c # replace_scan old new cs)"
  by pat_completeness auto
termination
  by (relation "measure (\<lambda>(old, new, s). length s)") (auto simp: neq_Nil_conv)

definition py_replace :: "string \<Rightarrow> string \<Rightarrow> string \<Rightarrow> string" where
  "py_replace old new s =
     (if old = [] then new @ concat (map (\<lambda>c. c # new) s) else replace_scan old new s)"

text \<open>\<^verbatim>\<open>str(n)\<close> for an integer.\<close>

definition digit_chars :: string where
  "digit_chars = ''0123456789''"

fun str_nat :: "nat \<Rightarrow> string" where
  "str_nat n =
     (if n < 10 then [digit_chars ! n]
      else str_nat (n div 10) @ [digit_chars ! (n mod 10)])"

declare str_nat.simps [simp del]

definition str_int :: "int \<Rightarrow> string" where
  "str_int i = (if i < 0 then CHR ''-'' # str_nat (nat (- i)) else str_nat (nat i))"

definition dq :: string where
  "dq = [CHR 0x22]"

definition nl :: string where
  "nl = [CHR 0x0A]"

subsection \<open>numpy\<close>

text \<open>
  A float32 is a NaN or a value of a linearly ordered type. \<^verbatim>\<open>numpy.argmax\<close> keeps the
  first maximum: the running maximum is replaced only by an element that is not below or
  equal to it, and a NaN ends the scan at its own index. On an empty array it raises.
\<close>

datatype 'v float32 = NaN | Val 'v

datatype exn = KeyError string | ValueError | IndexError

fun argmax_scan :: "('v::linorder) float32 list \<Rightarrow> nat \<Rightarrow> 'v \<Rightarrow> nat \<Rightarrow> nat" where
  "argmax_scan [] i mp max_ind = max_ind"
| "argmax_scan (NaN # xs) i mp max_ind = i"
| "argmax_scan (Val x # xs) i mp max_ind =
     (if x \<le> mp then argmax_scan xs (Suc i) mp max_ind else argmax_scan xs (Suc i) x i)"

fun argmax :: "('v::linorder) float32 list \<Rightarrow> exn + nat" where
  "argmax [] = Inl ValueError"
| "argmax (NaN # xs) = Inr 0"
| "argmax (Val x # xs) = Inr (argmax_scan xs 1 x 0)"

text \<open>
  \<^verbatim>\<open>np.asarray(tokens).astype(np.float32)\<close>: every token is converted, and one token
  that is not a number raises ValueError. The conversion of one token is the parameter
  \<open>np\<close>.
\<close>

fun astype_float32 :: "(string \<Rightarrow> 'v float32 option) \<Rightarrow> string list \<Rightarrow> exn + 'v float32 list" where
  "astype_float32 np [] = Inr []"
| "astype_float32 np (t # ts) =
     (case np t of
        None \<Rightarrow> Inl ValueError
      | Some v \<Rightarrow> (case astype_float32 np ts of Inl e \<Rightarrow> Inl e | Inr vs \<Rightarrow> Inr (v # vs)))"

subsection \<open>Configuration and state\<close>

text \<open>
  The variables set before the row loop and only read in it: the command-line options
  (lines 31 to 84) and the answers of the design introspection (lines 88 to 125).
\<close>

record config =
  working_dir :: string
  simulation_steps :: string
  isml :: bool
  benchCore :: bool
  linear_data_range :: string
  data_type :: string
  prefix :: string
  header :: bool
  omit_prefix :: bool
  inputs :: "(string \<times> string) list"
  outputs :: "(string \<times> string) list"

text \<open>A finished subprocess: what \<^verbatim>\<open>Popen\<close> and \<^verbatim>\<open>wait\<close> leave behind.\<close>

record proc =
  returncode :: int
  p_stdout :: string
  p_stderr :: string

type_synonym 'w shell = "string \<Rightarrow> 'w \<Rightarrow> proc \<times> 'w"

text \<open>The places of the program that start a subprocess.\<close>

datatype action = Cleanup | Configure | Bind | Capture | Simulate

datatype run_status = Running | Exited int | Raised exn

text \<open>
  The state of a run: the world the subprocesses act on, the variable
  \<^verbatim>\<open>stopOnValidOf\<close> (set from the command line, assigned in the loop), the text written
  to the output file, the lines printed, and whether the process still runs. \<open>calls\<close> is
  the history of the subprocesses started, each with its completion status.
\<close>

record 'w state =
  world :: 'w
  stopOnValidOf :: int
  out_file :: string
  console :: "string list"
  calls :: "(action \<times> string \<times> int) list"
  status :: run_status

definition popen :: "'w shell \<Rightarrow> action \<Rightarrow> string \<Rightarrow> 'w state \<Rightarrow> proc \<times> 'w state" where
  "popen sh k command s =
     (let (p, w) = sh command (world s)
      in (p, s\<lparr>world := w, calls := calls s @ [(k, command, returncode p)]\<rparr>))"

definition print :: "string \<Rightarrow> 'w state \<Rightarrow> 'w state" where
  "print line s = s\<lparr>console := console s @ [line]\<rparr>"

definition sys_exit :: "int \<Rightarrow> 'w state \<Rightarrow> 'w state" where
  "sys_exit code s = s\<lparr>status := Exited code\<rparr>"

definition raise :: "exn \<Rightarrow> 'w state \<Rightarrow> 'w state" where
  "raise e s = s\<lparr>status := Raised e\<rparr>"

definition file_write :: "string \<Rightarrow> 'w state \<Rightarrow> 'w state" where
  "file_write txt s = s\<lparr>out_file := out_file s @ txt\<rparr>"

subsection \<open>The header (lines 136 to 143)\<close>

definition header_text :: "config \<Rightarrow> string" where
  "header_text cfg =
     (if header cfg then
        (if isml cfg then
           concat (map (\<lambda>i. ''probability_'' @ str_nat i @ '','') [0 ..< length (outputs cfg)])
           @ ''classification''
         else [])
        @ (if benchCore cfg then '',latency_cycles'' else [])
        @ nl
      else [])"

subsection \<open>The sandbox script of one row (lines 154 to 206)\<close>

definition simbox :: "config \<Rightarrow> string" where
  "simbox cfg = ''simbox -simbox-file '' @ working_dir cfg @ ''/simboxtemp.json''"

definition cleanup_command :: "config \<Rightarrow> string" where
  "cleanup_command cfg = ''rm -f '' @ working_dir cfg @ ''/simboxtemp.json''"

definition commands :: "config \<Rightarrow> string list" where
  "commands cfg =
     [simbox cfg @ '' -add '' @ dq @ ''config:show_io_pre'' @ dq,
      simbox cfg @ '' -suspend 0'',
      simbox cfg @ '' -add '' @ dq @ ''config:show_io_post'' @ dq,
      simbox cfg @ '' -suspend 1'',
      simbox cfg @ '' -add '' @ dq @ ''config:show_ticks'' @ dq,
      simbox cfg @ '' -suspend 2'',
      simbox cfg @ '' -add '' @ dq @ ''config:show_pc'' @ dq,
      simbox cfg @ '' -suspend 3'',
      simbox cfg @ '' -add '' @ dq @ ''config:show_disasm'' @ dq,
      simbox cfg @ '' -suspend 4'']"

definition bind_command :: "config \<Rightarrow> string \<Rightarrow> string \<Rightarrow> string" where
  "bind_command cfg input_name input_value =
     simbox cfg @ '' -add '' @ dq @ ''absolute:0:set:'' @ input_name @ '':'' @ input_value @ dq"

definition capture_command :: "config \<Rightarrow> string \<Rightarrow> string" where
  "capture_command cfg capture_id =
     (if benchCore cfg \<and> capture_id = ''o'' @ str_int (int (length (outputs cfg)) - 1)
      then simbox cfg @ '' -add '' @ dq @ ''onexit:show:'' @ capture_id @ '':unsigned'' @ dq
      else simbox cfg @ '' -add '' @ dq @ ''onexit:show:'' @ capture_id @ '':'' @ data_type cfg @ dq)"

definition simulation_command :: "config \<Rightarrow> int \<Rightarrow> string" where
  "simulation_command cfg stop =
     ''bondmachine -bondmachine-file '' @ working_dir cfg @ ''/bondmachine.json -simbox-file ''
     @ working_dir cfg @ ''/simboxtemp.json -sim-stop-on-valid-of '' @ str_int stop
     @ '' -sim -sim-interactions '' @ simulation_steps cfg @ '' '' @ linear_data_range cfg"

text \<open>Lines 173 to 178: the configuration commands, the first failure ends the process.\<close>

fun prepare_simbox :: "'w shell \<Rightarrow> string list \<Rightarrow> 'w state \<Rightarrow> 'w state" where
  "prepare_simbox sh [] s = s"
| "prepare_simbox sh (command # rest) s =
     (let (p, s1) = popen sh Configure command s
      in if returncode p \<noteq> 0
         then sys_exit 2 (print (''Error preparing simbox command: '' @ command) s1)
         else prepare_simbox sh rest s1)"

text \<open>
  Lines 181 to 189: one bind action for each value of the row, the name looked up under
  the text of the position. A missing key raises KeyError.
\<close>

fun bind_inputs :: "'w shell \<Rightarrow> config \<Rightarrow> string list \<Rightarrow> nat \<Rightarrow> 'w state \<Rightarrow> 'w state" where
  "bind_inputs sh cfg [] i s = s"
| "bind_inputs sh cfg (input_value # rest) i s =
     (case map_of (inputs cfg) (str_nat i) of
        None \<Rightarrow> raise (KeyError (str_nat i)) s
      | Some input_name \<Rightarrow>
          (let (p, s1) = popen sh Bind (bind_command cfg input_name input_value) s
           in if returncode p \<noteq> 0
              then sys_exit 2 (print (''Error setting input '' @ input_name @ '' to '' @ input_value) s1)
              else bind_inputs sh cfg rest (Suc i) s1))"

text \<open>
  Lines 192 to 201: one capture request for each item of the outputs, in their order. The
  loop variable is the key, the capture identifier the value stored under it.
\<close>

fun capture_outputs :: "'w shell \<Rightarrow> config \<Rightarrow> (string \<times> string) list \<Rightarrow> 'w state \<Rightarrow> 'w state" where
  "capture_outputs sh cfg [] s = s"
| "capture_outputs sh cfg ((output_name, capture_id) # rest) s =
     (let (p, s1) = popen sh Capture (capture_command cfg capture_id) s
      in if returncode p \<noteq> 0
         then sys_exit 2 (print (''Error getting output '' @ output_name) s1)
         else capture_outputs sh cfg rest s1)"

subsection \<open>The result decoder (lines 214 to 239)\<close>

text \<open>Lines 214 to 216.\<close>

definition strip_prefix :: "config \<Rightarrow> string \<Rightarrow> string" where
  "strip_prefix cfg readout =
     (let outline = py_strip readout
      in if omit_prefix cfg then py_replace (prefix cfg) [] outline else outline)"

text \<open>
  Lines 219 to 222: the line without its last part, and the last part. Outside the
  benchmark mode the line is left as it is and no latency is bound (the second component
  is then never read).
\<close>

definition extract_latency :: "config \<Rightarrow> string \<Rightarrow> exn + (string \<times> string)" where
  "extract_latency cfg outline =
     (if benchCore cfg then
        (let parts = py_split CHR '' '' outline
         in if parts = [] then Inl IndexError
            else Inr (py_join '' '' (butlast parts), last parts))
      else Inr (outline, []))"

text \<open>Lines 224 to 233.\<close>

definition format_fields ::
  "(string \<Rightarrow> ('v::linorder) float32 option) \<Rightarrow> config \<Rightarrow> string \<Rightarrow> exn + string" where
  "format_fields np cfg outline =
     (if isml cfg then
        (case astype_float32 np (py_split CHR '' '' outline) of
           Inl e \<Rightarrow> Inl e
         | Inr vals \<Rightarrow>
             (case argmax vals of
                Inl e \<Rightarrow> Inl e
              | Inr index \<Rightarrow> Inr (py_replace '' '' '','' outline @ '','' @ str_nat index)))
      else Inr (py_replace '' '' '','' (py_strip_chars '','' outline)))"

text \<open>Lines 214 to 239: the text written to the output file for one readout.\<close>

definition decode ::
  "(string \<Rightarrow> ('v::linorder) float32 option) \<Rightarrow> config \<Rightarrow> string \<Rightarrow> exn + string" where
  "decode np cfg readout =
     (case extract_latency cfg (strip_prefix cfg readout) of
        Inl e \<Rightarrow> Inl e
      | Inr (outline, latency_cycles) \<Rightarrow>
          (case format_fields np cfg outline of
             Inl e \<Rightarrow> Inl e
           | Inr decoded \<Rightarrow>
               Inr (decoded @ (if benchCore cfg then '','' @ latency_cycles else []) @ nl)))"

subsection \<open>The row loop (lines 146 to 242)\<close>

definition simulate ::
  "'w shell \<Rightarrow> (string \<Rightarrow> ('v::linorder) float32 option) \<Rightarrow> config \<Rightarrow> 'w state \<Rightarrow> 'w state" where
  "simulate sh np cfg s =
     (let s1 = s\<lparr>stopOnValidOf := int (length (outputs cfg)) - 1\<rparr>;
          (p, s2) = popen sh Simulate (simulation_command cfg (stopOnValidOf s1)) s1
      in if returncode p \<noteq> 0
         then sys_exit 2 (print (p_stderr p) (print ''Error running simulation'' s2))
         else (case decode np cfg (p_stdout p) of
                 Inl e \<Rightarrow> raise e s2
               | Inr row \<Rightarrow> file_write row s2))"

definition run_row ::
  "'w shell \<Rightarrow> (string \<Rightarrow> ('v::linorder) float32 option) \<Rightarrow> config \<Rightarrow> string \<Rightarrow> string list
     \<Rightarrow> 'w state \<Rightarrow> 'w state" where
  "run_row sh np cfg line inputs_values s =
     (let s0 = print (''Running simulation with inputs: '' @ line) s;
          s1 = snd (popen sh Cleanup (cleanup_command cfg) s0);
          s2 = prepare_simbox sh (commands cfg) s1
      in if status s2 \<noteq> Running then s2
         else let s3 = bind_inputs sh cfg inputs_values 0 s2
           in if status s3 \<noteq> Running then s3
              else let s4 = capture_outputs sh cfg (outputs cfg) s3
                in if status s4 \<noteq> Running then s4
                   else simulate sh np cfg s4)"

definition column_error :: string where
  "column_error = ''Error: The input file has an invalid number of columns''"

definition loop_body ::
  "'w shell \<Rightarrow> (string \<Rightarrow> ('v::linorder) float32 option) \<Rightarrow> config \<Rightarrow> string
     \<Rightarrow> 'w state \<Rightarrow> 'w state" where
  "loop_body sh np cfg raw s =
     (let line = py_strip raw;
          inputs_values = py_split CHR '','' line
      in if length inputs_values = 0 then s
         else if length inputs_values = length (inputs cfg)
              then run_row sh np cfg line inputs_values s
              else print column_error s)"

fun main_loop ::
  "'w shell \<Rightarrow> (string \<Rightarrow> ('v::linorder) float32 option) \<Rightarrow> config \<Rightarrow> string list
     \<Rightarrow> 'w state \<Rightarrow> 'w state" where
  "main_loop sh np cfg [] s = s"
| "main_loop sh np cfg (raw # rest) s =
     (if status s = Running then main_loop sh np cfg rest (loop_body sh np cfg raw s) else s)"

text \<open>
  Lines 131 to 245: the files are opened, the header is written, the rows are run, and a
  process that reaches the end exits with status 0.
\<close>

definition initial :: "'w \<Rightarrow> int \<Rightarrow> 'w state" where
  "initial w stop =
     \<lparr>world = w, stopOnValidOf = stop, out_file = [], console = [], calls = [], status = Running\<rparr>"

definition simbatch ::
  "'w shell \<Rightarrow> (string \<Rightarrow> ('v::linorder) float32 option) \<Rightarrow> config \<Rightarrow> string list
     \<Rightarrow> 'w \<Rightarrow> int \<Rightarrow> 'w state" where
  "simbatch sh np cfg lines w stop =
     (let s = main_loop sh np cfg lines (file_write (header_text cfg) (initial w stop))
      in if status s = Running then sys_exit 0 s else s)"

subsection \<open>A small design and a scripted engine\<close>

text \<open>
  A design with two inputs and one output, a scripted engine, and a conversion that knows
  a few literals, read as tenths. The world of the engine counts the subprocesses started
  so far; a simulation prints the readout and succeeds while fewer than \<open>good\<close>
  subprocesses have been started, and fails afterwards; all other commands succeed and
  print nothing. They instantiate the parameters of the model on concrete runs.
\<close>

definition design :: config where
  "design =
     \<lparr>working_dir = ''wd'', simulation_steps = ''200'', isml = False, benchCore = False,
      linear_data_range = [], data_type = ''float32'', prefix = ''0f'', header = False,
      omit_prefix = True, inputs = [(''0'', ''a''), (''1'', ''b'')],
      outputs = [(''0'', ''o0'')]\<rparr>"

definition engine :: "nat \<Rightarrow> string \<Rightarrow> nat shell" where
  "engine good readout command w =
     (if take 11 command = ''bondmachine''
      then (if w < good
            then \<lparr>returncode = 0, p_stdout = readout, p_stderr = []\<rparr>
            else \<lparr>returncode = 1, p_stdout = [], p_stderr = ''simulation failed''\<rparr>)
      else \<lparr>returncode = 0, p_stdout = [], p_stderr = []\<rparr>, Suc w)"

definition tenths :: "string \<Rightarrow> int float32 option" where
  "tenths = map_of [(''0.1'', Val 1), (''0.5'', Val 5), (''0.9'', Val 9), (''nan'', NaN)]"

subsection \<open>Observing a run\<close>

text \<open>
  A call has failed when its completion status is checked by the program and is not
  zero; the status of the cleanup (line 155) is not looked at.
\<close>

definition failed :: "action \<times> string \<times> int \<Rightarrow> bool" where
  "failed x \<longleftrightarrow> fst x \<noteq> Cleanup \<and> snd (snd x) \<noteq> 0"

definition new_calls :: "'w state \<Rightarrow> 'w state \<Rightarrow> (action \<times> string \<times> int) list" where
  "new_calls s s' = drop (length (calls s)) (calls s')"

text \<open>A line is accepted when it has as many fields as the design has inputs (line 151).\<close>

definition accepted :: "config \<Rightarrow> string \<Rightarrow> bool" where
  "accepted cfg raw \<longleftrightarrow> length (py_split CHR '','' (py_strip raw)) = length (inputs cfg)"

text \<open>
  The records of a run: for each line during which the output file grew, the line and
  the text added, in the order of the lines.
\<close>

fun row_records ::
  "'w shell \<Rightarrow> (string \<Rightarrow> ('v::linorder) float32 option) \<Rightarrow> config \<Rightarrow> string list
     \<Rightarrow> 'w state \<Rightarrow> (string \<times> string) list" where
  "row_records sh np cfg [] s = []"
| "row_records sh np cfg (raw # rest) s =
     (if status s = Running then
        (if out_file (loop_body sh np cfg raw s) \<noteq> out_file s
         then [(raw, drop (length (out_file s)) (out_file (loop_body sh np cfg raw s)))]
         else [])
        @ row_records sh np cfg rest (loop_body sh np cfg raw s)
      else [])"

text \<open>
  One of the three loops over checked commands, from \<open>s\<close> to \<open>s'\<close>: the calls added are
  of one kind, nothing is written, and either one call failed, the process has exited
  with status 2 and has printed, or no call failed and nothing was printed.
\<close>

definition phase :: "action \<Rightarrow> 'w state \<Rightarrow> 'w state \<Rightarrow> bool" where
  "phase k s s' \<longleftrightarrow>
     (\<exists>new. calls s' = calls s @ new \<and> (\<forall>x\<in>set new. fst x = k) \<and>
        out_file s' = out_file s \<and> stopOnValidOf s' = stopOnValidOf s \<and>
        (if \<exists>x\<in>set new. snd (snd x) \<noteq> 0
         then status s' = Exited 2 \<and> (\<exists>d. console s' = console s @ [d])
         else console s' = console s \<and> (status s' = status s \<or> (\<exists>e. status s' = Raised e))))"

text \<open>
  The rest of a row, from \<open>s\<close> to \<open>s'\<close>, with the lines \<open>printed\<close> before any diagnostic:
  every simulation started has the stop condition of the last output; when a call has
  failed the process has exited with status 2 after a diagnostic and nothing was written;
  otherwise either an exception was raised and nothing was written, or the process goes
  on and one line has been added to the output file.
\<close>

definition outcome :: "config \<Rightarrow> string list \<Rightarrow> 'w state \<Rightarrow> 'w state \<Rightarrow> bool" where
  "outcome cfg printed s s' \<longleftrightarrow>
     (\<exists>new. calls s' = calls s @ new \<and>
        (\<forall>x\<in>set new. fst x = Simulate \<longrightarrow>
           fst (snd x) = simulation_command cfg (int (length (outputs cfg)) - 1)) \<and>
        (if \<exists>x\<in>set new. failed x
         then status s' = Exited 2 \<and> out_file s' = out_file s \<and>
              (\<exists>d. d \<noteq> [] \<and> console s' = console s @ printed @ d)
         else console s' = console s @ printed \<and>
              ((\<exists>e. status s' = Raised e) \<and> out_file s' = out_file s \<or>
               status s' = status s \<and> (\<exists>t. out_file s' = out_file s @ t @ nl))))"

text \<open>
  The words of the specification for the latency value, to compare with the code: the
  token after the last white-space boundary of a line.
\<close>

definition spec_latency_token :: "string \<Rightarrow> string" where
  "spec_latency_token s = rev (takeWhile (\<lambda>c. \<not> py_isspace c) (rev s))"

definition tab :: string where
  "tab = [CHR 0x09]"

section \<open>Properties\<close>

subsection \<open>Strings\<close>

lemma py_split_not_Nil: "py_split c s \<noteq> []"
  by (induction s) (auto split: list.splits)

lemma py_split_absent: "c \<notin> set s \<Longrightarrow> py_split c s = [s]"
  by (induction s) auto

lemma py_split_append_sep: "py_split c (a @ c # b) = py_split c a @ py_split c b"
  by (induction a) (auto split: list.splits simp: py_split_not_Nil)

lemma last_py_split_sep: "c \<notin> set b \<Longrightarrow> last (py_split c (a @ c # b)) = b"
  by (simp add: py_split_append_sep py_split_absent py_split_not_Nil)

lemma last_py_split_free: "c \<notin> set (last (py_split c s))"
  by (induction s) (auto split: list.splits simp: py_split_not_Nil)

lemma py_join_py_split: "py_join [c] (py_split c s) = s"
proof (induction s)
  case Nil
  show ?case by simp
next
  case (Cons a s)
  show ?case
  proof (cases "py_split c s")
    case Nil
    then show ?thesis by (simp add: py_split_not_Nil)
  next
    case (Cons w ws)
    with Cons.IH show ?thesis by (cases ws) auto
  qed
qed

lemma py_join_snoc: "ps \<noteq> [] \<Longrightarrow> py_join sep (ps @ [x]) = py_join sep ps @ sep @ x"
  by (induction sep ps rule: py_join.induct) auto

lemma py_split_last_decomp:
  "c \<in> set s \<Longrightarrow> s = py_join [c] (butlast (py_split c s)) @ c # last (py_split c s)"
proof -
  assume c: "c \<in> set s"
  have len: "butlast (py_split c s) \<noteq> []"
    using c by (induction s) (auto split: list.splits simp: py_split_not_Nil)
  have "py_join [c] (butlast (py_split c s) @ [last (py_split c s)]) = s"
    by (simp add: py_split_not_Nil py_join_py_split)
  with len show ?thesis by (simp add: py_join_snoc)
qed

lemma py_split_py_join:
  "ps \<noteq> [] \<Longrightarrow> \<forall>p \<in> set ps. c \<notin> set p \<Longrightarrow> py_split c (py_join [c] ps) = ps"
proof (induction "[c]" ps rule: py_join.induct)
  case 1
  then show ?case by simp
next
  case (2 x)
  then show ?case by (simp add: py_split_absent)
next
  case (3 x y ys)
  then show ?case by (simp add: py_split_append_sep py_split_absent)
qed

lemma py_split_parts_free: "p \<in> set (py_split c s) \<Longrightarrow> c \<notin> set p"
  by (induction s arbitrary: p) (auto split: list.splits if_splits)

subsection \<open>The first maximum\<close>

lemma argmax_scan_spec:
  "k < length ps \<Longrightarrow> ps ! k = mp \<Longrightarrow> \<forall>j<length ps. ps ! j \<le> mp \<Longrightarrow> \<forall>j<k. ps ! j < mp \<Longrightarrow>
   argmax_scan (map Val ys) (length ps) mp k < length (ps @ ys) \<and>
   (\<forall>j<length (ps @ ys). (ps @ ys) ! j \<le> (ps @ ys) ! argmax_scan (map Val ys) (length ps) mp k) \<and>
   (\<forall>j<argmax_scan (map Val ys) (length ps) mp k. (ps @ ys) ! j < (ps @ ys) ! argmax_scan (map Val ys) (length ps) mp k)"
proof (induction ys arbitrary: ps mp k)
  case Nil
  then show ?case by simp
next
  case (Cons y ys)
  show ?case
  proof (cases "y \<le> mp")
    case True
    have "argmax_scan (map Val ys) (length (ps @ [y])) mp k < length ((ps @ [y]) @ ys) \<and>
      (\<forall>j<length ((ps @ [y]) @ ys). ((ps @ [y]) @ ys) ! j \<le> ((ps @ [y]) @ ys) ! argmax_scan (map Val ys) (length (ps @ [y])) mp k) \<and>
      (\<forall>j<argmax_scan (map Val ys) (length (ps @ [y])) mp k. ((ps @ [y]) @ ys) ! j < ((ps @ [y]) @ ys) ! argmax_scan (map Val ys) (length (ps @ [y])) mp k)"
      using Cons.prems True by (intro Cons.IH) (auto simp: nth_append less_Suc_eq)
    with True show ?thesis by simp
  next
    case False
    have "argmax_scan (map Val ys) (length (ps @ [y])) y (length ps) < length ((ps @ [y]) @ ys) \<and>
      (\<forall>j<length ((ps @ [y]) @ ys). ((ps @ [y]) @ ys) ! j \<le> ((ps @ [y]) @ ys) ! argmax_scan (map Val ys) (length (ps @ [y])) y (length ps)) \<and>
      (\<forall>j<argmax_scan (map Val ys) (length (ps @ [y])) y (length ps). ((ps @ [y]) @ ys) ! j < ((ps @ [y]) @ ys) ! argmax_scan (map Val ys) (length (ps @ [y])) y (length ps))"
      using Cons.prems False by (intro Cons.IH) (auto simp: nth_append less_Suc_eq)
    with False show ?thesis by simp
  qed
qed

lemma argmax_first_max:
  assumes "vs \<noteq> []"
  shows "\<exists>k. argmax (map Val vs) = Inr k \<and> k < length vs \<and> (\<forall>j<length vs. vs ! j \<le> vs ! k) \<and>
     (\<forall>j<k. vs ! j < vs ! k)"
proof -
  from assms obtain x xs where vs: "vs = x # xs" by (cases vs) auto
  have "argmax_scan (map Val xs) (length [x]) x 0 < length ([x] @ xs) \<and>
   (\<forall>j<length ([x] @ xs). ([x] @ xs) ! j \<le> ([x] @ xs) ! argmax_scan (map Val xs) (length [x]) x 0) \<and>
   (\<forall>j<argmax_scan (map Val xs) (length [x]) x 0. ([x] @ xs) ! j < ([x] @ xs) ! argmax_scan (map Val xs) (length [x]) x 0)"
    by (intro argmax_scan_spec) auto
  then show ?thesis by (simp add: vs)
qed

lemma astype_float32_all:
  "map np ts = map (Some \<circ> Val) vs \<Longrightarrow> astype_float32 np ts = Inr (map Val vs)"
  by (induction ts arbitrary: vs) auto

lemma str_nat_digits: "set (str_nat n) \<subseteq> set digit_chars"
proof (induction n rule: str_nat.induct)
  case (1 n)
  have d: "\<And>m. m < 10 \<Longrightarrow> digit_chars ! m \<in> set digit_chars"
    by (rule nth_mem) (simp add: digit_chars_def)
  show ?case
  proof (cases "n < 10")
    case True
    then show ?thesis using d[of n] by (subst str_nat.simps) simp
  next
    case False
    then show ?thesis using 1 d[of "n mod 10"] by (subst str_nat.simps) simp
  qed
qed

lemma str_nat_no_comma: "CHR '','' \<notin> set (str_nat n)"
  using str_nat_digits[of n] by (auto simp: digit_chars_def)

subsection \<open>The result decoder\<close>

text \<open>
  C1. With \<open>isml\<close> set, let the line that reaches the argmax (the trimmed readout without the
  prefix and, in benchmark mode, without its last part) split at its spaces into tokens
  that all convert to numbers \<open>vs\<close>. Then the class index \<open>k\<close> is a position of \<open>vs\<close>
  holding a maximum, every earlier position holds a strictly smaller value (the first
  maximum), and \<open>k = 0\<close> when all values are equal. The decoded line is the line with
  commas for spaces followed by a comma and \<open>k\<close>; \<open>k\<close> is its last comma-separated
  field, and the row written is that line, then the latency field in benchmark mode,
  then a newline.
\<close>

theorem ml_class_index_is_first_argmax:
  assumes ml: "isml cfg"
    and lat: "extract_latency cfg (strip_prefix cfg readout) = Inr (outline, latency_cycles)"
    and parsed: "map np (py_split CHR '' '' outline) = map (Some \<circ> Val) vs"
  shows "\<exists>k<length vs.
           (\<forall>j<length vs. vs ! j \<le> vs ! k) \<and> (\<forall>j<k. vs ! j < vs ! k) \<and>
           ((\<forall>j<length vs. vs ! j = vs ! 0) \<longrightarrow> k = 0) \<and>
           format_fields np cfg outline = Inr (py_replace '' '' '','' outline @ '','' @ str_nat k) \<and>
           last (py_split CHR '','' (py_replace '' '' '','' outline @ '','' @ str_nat k)) = str_nat k \<and>
           decode np cfg readout =
             Inr (py_replace '' '' '','' outline @ '','' @ str_nat k
                  @ (if benchCore cfg then '','' @ latency_cycles else []) @ nl)"
proof -
  have "length (map np (py_split CHR '' '' outline)) = length (map (Some \<circ> Val) vs)"
    using parsed by simp
  then have ne: "vs \<noteq> []"
    using py_split_not_Nil[of "CHR '' ''" outline] by auto
  from argmax_first_max[OF ne] obtain k where k: "argmax (map Val vs) = Inr k" "k < length vs"
    "\<forall>j<length vs. vs ! j \<le> vs ! k" "\<forall>j<k. vs ! j < vs ! k"
    by blast
  have tie: "(\<forall>j<length vs. vs ! j = vs ! 0) \<longrightarrow> k = 0"
  proof
    assume eq: "\<forall>j<length vs. vs ! j = vs ! 0"
    show "k = 0"
    proof (rule ccontr)
      assume "k \<noteq> 0"
      then have "vs ! 0 < vs ! k" using k(4) by simp
      with eq k(2) show False by simp
    qed
  qed
  have ff: "format_fields np cfg outline = Inr (py_replace '' '' '','' outline @ '','' @ str_nat k)"
    using ml k(1) astype_float32_all[OF parsed] by (simp add: format_fields_def)
  have lst: "last (py_split CHR '','' (py_replace '' '' '','' outline @ '','' @ str_nat k)) = str_nat k"
    using last_py_split_sep[OF str_nat_no_comma, of "py_replace '' '' '','' outline" k] by simp
  have dec: "decode np cfg readout =
             Inr (py_replace '' '' '','' outline @ '','' @ str_nat k
                  @ (if benchCore cfg then '','' @ latency_cycles else []) @ nl)"
    using lat ff by (simp add: decode_def)
  from k(2,3,4) tie ff lst dec show ?thesis by blast
qed

theorem ml_class_index_is_first_argmax_witness:
  "isml (design\<lparr>isml := True\<rparr>) \<and>
   extract_latency (design\<lparr>isml := True\<rparr>) (strip_prefix (design\<lparr>isml := True\<rparr>) (''0f0.1 0f0.9'' @ nl))
     = Inr (''0.1 0.9'', []) \<and>
   map tenths (py_split CHR '' '' ''0.1 0.9'') = map (Some \<circ> Val) [1, 9] \<and>
   decode tenths (design\<lparr>isml := True\<rparr>) (''0f0.1 0f0.9'' @ nl) = Inr (''0.1,0.9,1'' @ nl)"
proof -
  have h1: "isml (design\<lparr>isml := True\<rparr>)" by simp
  have h2: "extract_latency (design\<lparr>isml := True\<rparr>)
      (strip_prefix (design\<lparr>isml := True\<rparr>) (''0f0.1 0f0.9'' @ nl)) = Inr (''0.1 0.9'', [])"
    by code_simp
  have h3: "map tenths (py_split CHR '' '' ''0.1 0.9'') = map (Some \<circ> Val) [1, 9]"
    by code_simp
  from ml_class_index_is_first_argmax[OF h1 h2 h3]
  obtain k where k: "k < length [1, 9 :: int]" "\<forall>j<length [1, 9 :: int]. [1, 9 :: int] ! j \<le> [1, 9] ! k"
    and d: "decode tenths (design\<lparr>isml := True\<rparr>) (''0f0.1 0f0.9'' @ nl) =
       Inr (py_replace '' '' '','' ''0.1 0.9'' @ '','' @ str_nat k
            @ (if benchCore (design\<lparr>isml := True\<rparr>) then '','' @ [] else []) @ nl)"
    by blast
  have "k = 0 \<or> k = 1" using k(1) by auto
  moreover have "k \<noteq> 0"
  proof
    assume "k = 0"
    have "(1::nat) < length [1, 9 :: int]" by simp
    with k(2) have "[1, 9 :: int] ! 1 \<le> [1, 9] ! k" by blast
    with \<open>k = 0\<close> show False by simp
  qed
  ultimately have k1: "k = 1" by simp
  have r: "py_replace '' '' '','' ''0.1 0.9'' = ''0.1,0.9''" by code_simp
  have s: "str_nat (Suc 0) = ''1''" by (simp add: str_nat.simps digit_chars_def)
  have b: "\<not> benchCore (design\<lparr>isml := True\<rparr>)" by (simp add: design_def)
  from d show ?thesis using h1 h2 h3 by (simp add: k1 r s b)
qed

lemma set_replace_scan_delete: "set (replace_scan old [] s) \<subseteq> set s"
proof (induction old "[] :: string" s rule: replace_scan.induct)
  case (1 old)
  show ?case by simp
next
  case (2 old c cs)
  show ?case
  proof (cases "old \<noteq> [] \<and> take (length old) (c # cs) = old")
    case True
    with 2(1) have "set (replace_scan old [] (drop (length old) (c # cs))) \<subseteq> set (drop (length old) (c # cs))"
      by blast
    moreover have "set (drop (length old) (c # cs)) \<subseteq> set (c # cs)"
      by (rule set_drop_subset)
    ultimately show ?thesis using True by auto
  next
    case False
    with 2(2) have "set (replace_scan old [] cs) \<subseteq> set cs" by blast
    with False show ?thesis by auto
  qed
qed

lemma concat_singletons: "concat (map (\<lambda>c. [c]) s) = s"
  by (induction s) auto

lemma set_py_replace_delete: "set (py_replace old [] s) \<subseteq> set s"
  using set_replace_scan_delete[of old s] by (simp add: py_replace_def concat_singletons)

lemma set_py_strip: "set (py_strip s) \<subseteq> set s"
proof -
  have "set (dropWhile py_isspace (rev (dropWhile py_isspace s))) \<subseteq> set (rev (dropWhile py_isspace s))"
    using set_dropWhileD by fastforce
  moreover have "set (dropWhile py_isspace s) \<subseteq> set s"
    using set_dropWhileD by fastforce
  ultimately show ?thesis by (auto simp: py_strip_def)
qed

lemma set_strip_prefix: "set (strip_prefix cfg readout) \<subseteq> set (py_strip readout)"
  using set_py_replace_delete[of "prefix cfg" "py_strip readout"]
  by (auto simp: strip_prefix_def Let_def)

lemma set_last_py_split: "set (last (py_split c s)) \<subseteq> set s"
  by (induction s) (auto split: list.splits simp: py_split_not_Nil)

lemma butlast_py_split_not_Nil: "c \<in> set s \<Longrightarrow> butlast (py_split c s) \<noteq> []"
  by (induction s) (auto split: list.splits simp: py_split_not_Nil)

lemma py_split_butlast:
  assumes "c \<in> set s"
  shows "py_split c (py_join [c] (butlast (py_split c s))) = butlast (py_split c s)"
proof (rule py_split_py_join)
  show "butlast (py_split c s) \<noteq> []" using assms by (rule butlast_py_split_not_Nil)
  show "\<forall>p\<in>set (butlast (py_split c s)). c \<notin> set p"
    using py_split_parts_free[of _ c s] in_set_butlastD by fastforce
qed

lemma butlast_py_split_absent: "c \<notin> set s \<Longrightarrow> py_join sep (butlast (py_split c s)) = []"
  by (simp add: py_split_absent)

lemma py_join_Cons_Cons: "py_join p ((c # u) # vs) = c # py_join p (u # vs)"
  by (cases vs) auto

lemma py_join_head: "\<exists>r. py_join p (u # vs) = u @ r"
  by (cases vs) auto

lemma take_prefix_append: "take (length p) (p @ b @ r) = p"
  by simp

lemma replace_scan_pieces:
  "p \<noteq> [] \<Longrightarrow>
   \<exists>us. us \<noteq> [] \<and> s = py_join p us \<and> replace_scan p [] s = concat us \<and>
        (\<forall>u\<in>set us. \<forall>a b. u \<noteq> a @ p @ b)"
proof (induction p "[] :: string" s rule: replace_scan.induct)
  case (1 old)
  have "[[]] \<noteq> [] \<and> [] = py_join old [[]] \<and> replace_scan old [] [] = concat [[]] \<and>
        (\<forall>u\<in>set [[]]. \<forall>a b. u \<noteq> a @ old @ b)"
    using 1 by simp
  then show ?case by blast
next
  case (2 old c cs)
  show ?case
  proof (cases "take (length old) (c # cs) = old")
    case True
    with 2 obtain us where us: "us \<noteq> []" "drop (length old) (c # cs) = py_join old us"
      "replace_scan old [] (drop (length old) (c # cs)) = concat us"
      "\<forall>u\<in>set us. \<forall>a b. u \<noteq> a @ old @ b"
      by blast
    from us(1) obtain y ys where y: "us = y # ys" by (cases us) auto
    have "c # cs = take (length old) (c # cs) @ drop (length old) (c # cs)"
      by (simp only: append_take_drop_id)
    then have s: "c # cs = old @ py_join old us" using True us(2) by simp
    have rs: "replace_scan old [] (c # cs) = concat us"
      using True 2(3) us(3) by simp
    have fr: "\<forall>a b. [] \<noteq> a @ old @ b" using 2(3) by simp
    have j: "c # cs = py_join old ([] # us)" using s by (simp add: y)
    have cc: "replace_scan old [] (c # cs) = concat ([] # us)" using rs by simp
    have al: "\<forall>u\<in>set ([] # us). \<forall>a b. u \<noteq> a @ old @ b" using us(4) fr by simp
    have "[] # us \<noteq> []" by simp
    with j cc al show ?thesis by blast
  next
    case False
    with 2 obtain us where us: "us \<noteq> []" "cs = py_join old us"
      "replace_scan old [] cs = concat us"
      "\<forall>u\<in>set us. \<forall>a b. u \<noteq> a @ old @ b"
      by blast
    from us(1) obtain u vs where u: "us = u # vs" by (cases us) auto
    obtain r where r: "py_join old (u # vs) = u @ r" using py_join_head by blast
    have fresh: "\<forall>a b. c # u \<noteq> a @ old @ b"
    proof (intro allI notI)
      fix a b
      assume eq: "c # u = a @ old @ b"
      show False
      proof (cases a)
        case Nil
        with eq have "c # cs = old @ b @ r" using us(2) u r by simp
        then have "take (length old) (c # cs) = old" by (simp only: take_prefix_append)
        with False show False by simp
      next
        case (Cons a0 a')
        with eq have "u = a' @ old @ b" by simp
        moreover have "\<forall>a b. u \<noteq> a @ old @ b" using us(4) u by simp
        ultimately show False by blast
      qed
    qed
    have "(c # u) # vs \<noteq> [] \<and> c # cs = py_join old ((c # u) # vs) \<and>
        replace_scan old [] (c # cs) = concat ((c # u) # vs) \<and>
        (\<forall>x\<in>set ((c # u) # vs). \<forall>a b. x \<noteq> a @ old @ b)"
      using us u False fresh by (simp add: py_join_Cons_Cons)
    then show ?thesis by blast
  qed
qed

text \<open>
  C3. With prefix omission on and a prefix that is not empty, the trimmed readout is a
  sequence of pieces with the prefix between every two neighbours, none of the pieces
  contains the prefix, and what is left of the readout is the pieces without the
  prefixes between them: every occurrence found from left to right is removed, wherever
  it stands. An empty prefix leaves the trimmed readout as it is. In plain mode with the
  prefix \<open>0f\<close> the readout \<open>0f3.5\<close> gives the row \<open>3.5\<close>.
\<close>

theorem prefix_removed_at_every_occurrence:
  assumes "omit_prefix cfg"
  shows "(prefix cfg \<noteq> [] \<longrightarrow>
           (\<exists>us. us \<noteq> [] \<and> py_strip readout = py_join (prefix cfg) us \<and>
                 strip_prefix cfg readout = concat us \<and>
                 (\<forall>u\<in>set us. \<forall>a b. u \<noteq> a @ prefix cfg @ b))) \<and>
         (prefix cfg = [] \<longrightarrow> strip_prefix cfg readout = py_strip readout) \<and>
         (prefix cfg = ''0f'' \<and> \<not> isml cfg \<and> \<not> benchCore cfg \<longrightarrow>
            decode np cfg ''0f3.5'' = Inr (''3.5'' @ nl))"
proof (intro conjI impI)
  assume ne: "prefix cfg \<noteq> []"
  have "strip_prefix cfg readout = replace_scan (prefix cfg) [] (py_strip readout)"
    using assms ne by (simp add: strip_prefix_def py_replace_def)
  with replace_scan_pieces[OF ne, of "py_strip readout"]
  show "\<exists>us. us \<noteq> [] \<and> py_strip readout = py_join (prefix cfg) us \<and>
                 strip_prefix cfg readout = concat us \<and>
                 (\<forall>u\<in>set us. \<forall>a b. u \<noteq> a @ prefix cfg @ b)"
    by simp
next
  assume "prefix cfg = []"
  then show "strip_prefix cfg readout = py_strip readout"
    using assms by (simp add: strip_prefix_def py_replace_def concat_singletons)
next
  assume a: "prefix cfg = ''0f'' \<and> \<not> isml cfg \<and> \<not> benchCore cfg"
  have t: "py_strip ''0f3.5'' = ''0f3.5''" by code_simp
  have r: "py_replace ''0f'' [] ''0f3.5'' = ''3.5''" by code_simp
  have c: "py_strip_chars '','' ''3.5'' = ''3.5''" by code_simp
  have g: "py_replace '' '' '','' ''3.5'' = ''3.5''" by code_simp
  have "strip_prefix cfg ''0f3.5'' = ''3.5''"
    using assms a by (simp only: strip_prefix_def Let_def t r if_True)
  then show "decode np cfg ''0f3.5'' = Inr (''3.5'' @ nl)"
    using a by (simp only: decode_def extract_latency_def format_fields_def c g if_False
        sum.case prod.case append_Nil)
qed

theorem prefix_removed_at_every_occurrence_witness:
  "omit_prefix design \<and> prefix design \<noteq> [] \<and>
   strip_prefix design (''0f3.5 0f42'' @ nl) = ''3.5 42'' \<and>
   (\<exists>us. us \<noteq> [] \<and> ''0f3.5 0f42'' = py_join ''0f'' us \<and> ''3.5 42'' = concat us \<and>
         (\<forall>u\<in>set us. \<forall>a b. u \<noteq> a @ ''0f'' @ b)) \<and>
   decode tenths design ''0f3.5'' = Inr (''3.5'' @ nl)"
proof -
  have h: "omit_prefix design" by (simp add: design_def)
  have p: "prefix design = ''0f''" by (simp add: design_def)
  have m: "\<not> isml design" "\<not> benchCore design" by (simp_all add: design_def)
  have t: "py_strip (''0f3.5 0f42'' @ nl) = ''0f3.5 0f42''" by code_simp
  have s: "strip_prefix design (''0f3.5 0f42'' @ nl) = ''3.5 42''" by code_simp
  note inst = prefix_removed_at_every_occurrence[OF h, of "''0f3.5 0f42'' @ nl" tenths, unfolded p t s]
  from inst have 1: "\<exists>us. us \<noteq> [] \<and> ''0f3.5 0f42'' = py_join ''0f'' us \<and> ''3.5 42'' = concat us \<and>
         (\<forall>u\<in>set us. \<forall>a b. u \<noteq> a @ ''0f'' @ b)"
    by simp
  from inst m have 2: "decode tenths design ''0f3.5'' = Inr (''3.5'' @ nl)" by simp
  from h p s 1 2 show ?thesis by simp
qed

subsection \<open>The header\<close>

lemma occurrence_subset: "x = a @ p @ b \<Longrightarrow> set p \<subseteq> set x"
  by auto

text \<open>
  C10. With the header flag set and \<open>isml\<close> off, the header written is an empty line in
  plain mode and the text \<open>,latency_cycles\<close> followed by a newline in benchmark mode. A
  header that contains \<open>classification\<close> or \<open>probability_\<close> is written only with \<open>isml\<close>,
  where it is the probability fields, one for each output, then \<open>classification\<close>, then
  the latency field in benchmark mode. The header is the whole output of a run on an
  empty table.
\<close>

theorem header_without_ml_has_no_class_fields:
  assumes "header cfg"
  shows "(\<not> isml cfg \<and> \<not> benchCore cfg \<longrightarrow> header_text cfg = nl) \<and>
         (\<not> isml cfg \<and> benchCore cfg \<longrightarrow> header_text cfg = '',latency_cycles'' @ nl) \<and>
         ((\<exists>a b. header_text cfg = a @ ''classification'' @ b) \<longrightarrow> isml cfg) \<and>
         ((\<exists>a b. header_text cfg = a @ ''probability_'' @ b) \<longrightarrow> isml cfg) \<and>
         (isml cfg \<longrightarrow> header_text cfg =
            concat (map (\<lambda>i. ''probability_'' @ str_nat i @ '','') [0 ..< length (outputs cfg)])
            @ ''classification'' @ (if benchCore cfg then '',latency_cycles'' else []) @ nl) \<and>
         out_file (simbatch sh np cfg [] w stop) = header_text cfg"
proof -
  have plain: "\<not> isml cfg \<and> \<not> benchCore cfg \<longrightarrow> header_text cfg = nl"
    using assms by (simp add: header_text_def)
  have bench: "\<not> isml cfg \<and> benchCore cfg \<longrightarrow> header_text cfg = '',latency_cycles'' @ nl"
    using assms by (simp add: header_text_def)
  have i: "CHR ''i'' \<notin> set (header_text cfg)" if "\<not> isml cfg"
    using that assms by (simp add: header_text_def nl_def)
  have cls: "(\<exists>a b. header_text cfg = a @ ''classification'' @ b) \<longrightarrow> isml cfg"
  proof (intro impI, rule ccontr)
    assume "\<exists>a b. header_text cfg = a @ ''classification'' @ b" and n: "\<not> isml cfg"
    then obtain a b where "header_text cfg = a @ ''classification'' @ b" by blast
    from occurrence_subset[OF this] have "CHR ''i'' \<in> set (header_text cfg)" by simp
    with i[OF n] show False by simp
  qed
  have prob: "(\<exists>a b. header_text cfg = a @ ''probability_'' @ b) \<longrightarrow> isml cfg"
  proof (intro impI, rule ccontr)
    assume "\<exists>a b. header_text cfg = a @ ''probability_'' @ b" and n: "\<not> isml cfg"
    then obtain a b where "header_text cfg = a @ ''probability_'' @ b" by blast
    from occurrence_subset[OF this] have "CHR ''i'' \<in> set (header_text cfg)" by simp
    with i[OF n] show False by simp
  qed
  have ml: "isml cfg \<longrightarrow> header_text cfg =
            concat (map (\<lambda>i. ''probability_'' @ str_nat i @ '','') [0 ..< length (outputs cfg)])
            @ ''classification'' @ (if benchCore cfg then '',latency_cycles'' else []) @ nl"
    using assms by (simp add: header_text_def)
  have run: "out_file (simbatch sh np cfg [] w stop) = header_text cfg"
    by (simp add: simbatch_def initial_def file_write_def sys_exit_def Let_def)
  from plain bench cls prob ml run show ?thesis by blast
qed

theorem header_without_ml_has_no_class_fields_witness:
  "header (design\<lparr>header := True, benchCore := True\<rparr>) \<and>
   header_text (design\<lparr>header := True, benchCore := True\<rparr>) = '',latency_cycles'' @ nl \<and>
   header (design\<lparr>header := True\<rparr>) \<and>
   header_text (design\<lparr>header := True\<rparr>) = nl \<and>
   header_text (design\<lparr>header := True, isml := True, benchCore := True\<rparr>)
     = ''probability_0,classification,latency_cycles'' @ nl"
proof -
  have h1: "header (design\<lparr>header := True, benchCore := True\<rparr>)" by simp
  have h2: "header (design\<lparr>header := True\<rparr>)" by simp
  have h3: "header (design\<lparr>header := True, isml := True, benchCore := True\<rparr>)" by simp
  have z: "str_nat 0 = ''0''" by (simp add: str_nat.simps digit_chars_def)
  have m1: "\<not> isml (design\<lparr>header := True, benchCore := True\<rparr>)"
    "benchCore (design\<lparr>header := True, benchCore := True\<rparr>)"
    by (simp_all add: design_def)
  have m2: "\<not> isml (design\<lparr>header := True\<rparr>)" "\<not> benchCore (design\<lparr>header := True\<rparr>)"
    by (simp_all add: design_def)
  have m3: "isml (design\<lparr>header := True, isml := True, benchCore := True\<rparr>)"
    "benchCore (design\<lparr>header := True, isml := True, benchCore := True\<rparr>)"
    "outputs (design\<lparr>header := True, isml := True, benchCore := True\<rparr>) = [(''0'', ''o0'')]"
    by (simp_all add: design_def)
  from header_without_ml_has_no_class_fields[OF h1, of "engine 0 []" tenths 0 0] m1
  have 1: "header_text (design\<lparr>header := True, benchCore := True\<rparr>) = '',latency_cycles'' @ nl"
    by blast
  from header_without_ml_has_no_class_fields[OF h2, of "engine 0 []" tenths 0 0] m2
  have 2: "header_text (design\<lparr>header := True\<rparr>) = nl"
    by blast
  from header_without_ml_has_no_class_fields[OF h3, of "engine 0 []" tenths 0 0] m3(1)
  have "header_text (design\<lparr>header := True, isml := True, benchCore := True\<rparr>) =
      concat (map (\<lambda>i. ''probability_'' @ str_nat i @ '','')
        [0 ..< length (outputs (design\<lparr>header := True, isml := True, benchCore := True\<rparr>))])
      @ ''classification''
      @ (if benchCore (design\<lparr>header := True, isml := True, benchCore := True\<rparr>)
         then '',latency_cycles'' else []) @ nl"
    by blast
  then have 3: "header_text (design\<lparr>header := True, isml := True, benchCore := True\<rparr>)
     = ''probability_0,classification,latency_cycles'' @ nl"
    unfolding m3(3) using m3(2) by (simp add: z)
  from h1 h2 1 2 3 show ?thesis by simp
qed

subsection \<open>The loops over checked commands\<close>

lemma popen_fields:
  assumes "popen sh k command s = (p, s1)"
  shows "calls s1 = calls s @ [(k, command, returncode p)]" "out_file s1 = out_file s"
    "console s1 = console s" "status s1 = status s" "stopOnValidOf s1 = stopOnValidOf s"
  using assms by (auto simp: popen_def split: prod.splits)

lemma phase_refl: "phase k s s"
  by (simp add: phase_def)

lemma phase_raise: "phase k s (raise e s)"
  by (simp add: phase_def raise_def)

lemma phase_fail:
  assumes "popen sh k command s = (p, s1)" "returncode p \<noteq> 0"
  shows "phase k s (sys_exit 2 (print d s1))"
proof -
  have "calls (sys_exit 2 (print d s1)) = calls s @ [(k, command, returncode p)]"
    using popen_fields[OF assms(1)] by (simp add: sys_exit_def print_def)
  moreover have "\<forall>x\<in>set [(k, command, returncode p)]. fst x = k" by simp
  moreover have "out_file (sys_exit 2 (print d s1)) = out_file s"
    "stopOnValidOf (sys_exit 2 (print d s1)) = stopOnValidOf s"
    using popen_fields[OF assms(1)] by (simp_all add: sys_exit_def print_def)
  moreover have "\<exists>x\<in>set [(k, command, returncode p)]. snd (snd x) \<noteq> 0"
    using assms(2) by simp
  moreover have "status (sys_exit 2 (print d s1)) = Exited 2"
    "console (sys_exit 2 (print d s1)) = console s @ [d]"
    using popen_fields[OF assms(1)] by (simp_all add: sys_exit_def print_def)
  ultimately show ?thesis unfolding phase_def by (intro exI[of _ "[(k, command, returncode p)]"]) simp
qed

lemma phase_step:
  assumes "popen sh k command s = (p, s1)" "returncode p = 0" "phase k s1 s'"
  shows "phase k s s'"
proof -
  from assms(3) obtain new where new: "calls s' = calls s1 @ new" "\<forall>x\<in>set new. fst x = k"
    "out_file s' = out_file s1" "stopOnValidOf s' = stopOnValidOf s1"
    "if \<exists>x\<in>set new. snd (snd x) \<noteq> 0
         then status s' = Exited 2 \<and> (\<exists>d. console s' = console s1 @ [d])
         else console s' = console s1 \<and> (status s' = status s1 \<or> (\<exists>e. status s' = Raised e))"
    unfolding phase_def by blast
  note f = popen_fields[OF assms(1)]
  have 1: "calls s' = calls s @ ((k, command, 0) # new)" using new(1) f(1) assms(2) by simp
  have 2: "\<forall>x\<in>set ((k, command, 0) # new). fst x = k" using new(2) by simp
  have 3: "(\<exists>x\<in>set ((k, command, 0) # new). snd (snd x) \<noteq> 0) = (\<exists>x\<in>set new. snd (snd x) \<noteq> 0)"
    by simp
  have 4: "if \<exists>x\<in>set new. snd (snd x) \<noteq> 0
         then status s' = Exited 2 \<and> (\<exists>d. console s' = console s @ [d])
         else console s' = console s \<and> (status s' = status s \<or> (\<exists>e. status s' = Raised e))"
    using new(5) unfolding f(3,4) .
  have 5: "out_file s' = out_file s" "stopOnValidOf s' = stopOnValidOf s"
    using new(3,4) f(2,5) by simp_all
  show ?thesis unfolding phase_def
    apply (intro exI[of _ "(k, command, 0) # new"])
    unfolding 3 using 1 2 4 5 by blast
qed

lemma phase_prepare_simbox: "phase Configure s (prepare_simbox sh cs s)"
proof (induction cs arbitrary: s)
  case Nil
  show ?case by (simp add: phase_refl)
next
  case (Cons c cs)
  obtain p s1 where p: "popen sh Configure c s = (p, s1)" by (cases "popen sh Configure c s")
  show ?case
  proof (cases "returncode p = 0")
    case True
    with p Cons[of s1] show ?thesis by (simp add: phase_step[OF p True])
  next
    case False
    with p show ?thesis by (simp add: phase_fail[OF p False])
  qed
qed

lemma phase_bind_inputs: "phase Bind s (bind_inputs sh cfg vs i s)"
proof (induction vs arbitrary: s i)
  case Nil
  show ?case by (simp add: phase_refl)
next
  case (Cons v vs)
  show ?case
  proof (cases "map_of (inputs cfg) (str_nat i)")
    case None
    then show ?thesis by (simp add: phase_raise)
  next
    case (Some name)
    obtain p s1 where p: "popen sh Bind (bind_command cfg name v) s = (p, s1)"
      by (cases "popen sh Bind (bind_command cfg name v) s")
    show ?thesis
    proof (cases "returncode p = 0")
      case True
      with p Some Cons[of s1 "Suc i"] show ?thesis by (simp add: phase_step[OF p True])
    next
      case False
      with p Some show ?thesis by (simp add: phase_fail[OF p False])
    qed
  qed
qed

lemma phase_capture_outputs: "phase Capture s (capture_outputs sh cfg outs s)"
proof (induction outs arbitrary: s)
  case Nil
  show ?case by (simp add: phase_refl)
next
  case (Cons out outs)
  obtain name cid where out: "out = (name, cid)" by (cases out)
  obtain p s1 where p: "popen sh Capture (capture_command cfg cid) s = (p, s1)"
    by (cases "popen sh Capture (capture_command cfg cid) s")
  show ?case
  proof (cases "returncode p = 0")
    case True
    with p out Cons[of s1] show ?thesis by (simp add: phase_step[OF p True])
  next
    case False
    with p out show ?thesis by (simp add: phase_fail[OF p False])
  qed
qed

subsection \<open>One row\<close>

lemma decode_ends_with_newline: "decode np cfg readout = Inr row \<Longrightarrow> \<exists>t. row = t @ nl"
  by (auto simp: decode_def split: sum.splits prod.splits)

lemma outcome_simulate: "outcome cfg [] s (simulate sh np cfg s)"
proof -
  let ?n = "int (length (outputs cfg)) - 1"
  let ?s1 = "s\<lparr>stopOnValidOf := ?n\<rparr>"
  obtain p s2 where p: "popen sh Simulate (simulation_command cfg ?n) ?s1 = (p, s2)"
    by (cases "popen sh Simulate (simulation_command cfg ?n) ?s1")
  note f = popen_fields[OF p]
  let ?new = "[(Simulate, simulation_command cfg ?n, returncode p)]"
  let ?s' = "simulate sh np cfg s"
  have c: "calls ?s' = calls s @ ?new"
    using p f by (auto simp: simulate_def Let_def sys_exit_def print_def raise_def file_write_def
        split: sum.splits)
  have k: "\<forall>x\<in>set ?new. fst x = Simulate \<longrightarrow> fst (snd x) = simulation_command cfg ?n"
    by simp
  have fl: "(\<exists>x\<in>set ?new. failed x) = (returncode p \<noteq> 0)"
    by (simp add: failed_def)
  have r: "if returncode p \<noteq> 0
         then status ?s' = Exited 2 \<and> out_file ?s' = out_file s \<and>
              (\<exists>d. d \<noteq> [] \<and> console ?s' = console s @ [] @ d)
         else console ?s' = console s @ [] \<and>
              ((\<exists>e. status ?s' = Raised e) \<and> out_file ?s' = out_file s \<or>
               status ?s' = status s \<and> (\<exists>t. out_file ?s' = out_file s @ t @ nl))"
  proof (cases "returncode p = 0")
    case False
    then show ?thesis
      using p f by (simp add: simulate_def Let_def sys_exit_def print_def)
  next
    case True
    show ?thesis
    proof (cases "decode np cfg (p_stdout p)")
      case (Inl e)
      with True show ?thesis using p f by (simp add: simulate_def Let_def raise_def)
    next
      case (Inr row)
      from decode_ends_with_newline[OF Inr] obtain t where "row = t @ nl" by blast
      with True Inr show ?thesis using p f by (simp add: simulate_def Let_def file_write_def)
    qed
  qed
  show ?thesis unfolding outcome_def
    apply (intro exI[of _ ?new])
    unfolding fl using c k r by blast
qed

lemma outcome_after_phase:
  assumes run: "status s1 = Running"
    and ph: "phase k s1 s2"
    and kind: "k \<noteq> Simulate" "k \<noteq> Cleanup"
    and go: "status s2 = Running \<Longrightarrow> outcome cfg [] s2 s'"
    and stop: "status s2 \<noteq> Running \<Longrightarrow> s' = s2"
  shows "outcome cfg [] s1 s'"
proof -
  from ph obtain new1 where n1: "calls s2 = calls s1 @ new1" "\<forall>x\<in>set new1. fst x = k"
    "out_file s2 = out_file s1"
    "if \<exists>x\<in>set new1. snd (snd x) \<noteq> 0
         then status s2 = Exited 2 \<and> (\<exists>d. console s2 = console s1 @ [d])
         else console s2 = console s1 \<and> (status s2 = status s1 \<or> (\<exists>e. status s2 = Raised e))"
    unfolding phase_def by blast
  have fl1: "(\<exists>x\<in>set new1. failed x) = (\<exists>x\<in>set new1. snd (snd x) \<noteq> 0)"
    using n1(2) kind(2) by (auto simp: failed_def)
  have sim1: "\<forall>x\<in>set new1. fst x \<noteq> Simulate" using n1(2) kind(1) by auto
  show ?thesis
  proof (cases "status s2 = Running")
    case True
    have quiet: "\<not> (\<exists>x\<in>set new1. snd (snd x) \<noteq> 0)"
    proof
      assume "\<exists>x\<in>set new1. snd (snd x) \<noteq> 0"
      with n1(4) have "status s2 = Exited 2" by simp
      with True show False by simp
    qed
    then have same: "console s2 = console s1" using n1(4) by simp
    from go[OF True] obtain new2 where n2: "calls s' = calls s2 @ new2"
      "\<forall>x\<in>set new2. fst x = Simulate \<longrightarrow>
           fst (snd x) = simulation_command cfg (int (length (outputs cfg)) - 1)"
      "if \<exists>x\<in>set new2. failed x
         then status s' = Exited 2 \<and> out_file s' = out_file s2 \<and>
              (\<exists>d. d \<noteq> [] \<and> console s' = console s2 @ [] @ d)
         else console s' = console s2 @ [] \<and>
              ((\<exists>e. status s' = Raised e) \<and> out_file s' = out_file s2 \<or>
               status s' = status s2 \<and> (\<exists>t. out_file s' = out_file s2 @ t @ nl))"
      unfolding outcome_def by blast
    have c: "calls s' = calls s1 @ (new1 @ new2)" using n1(1) n2(1) by simp
    have k: "\<forall>x\<in>set (new1 @ new2). fst x = Simulate \<longrightarrow>
           fst (snd x) = simulation_command cfg (int (length (outputs cfg)) - 1)"
      using sim1 n2(2) by auto
    have fl: "(\<exists>x\<in>set (new1 @ new2). failed x) = (\<exists>x\<in>set new2. failed x)"
      using quiet fl1 by auto
    have r: "if \<exists>x\<in>set new2. failed x
         then status s' = Exited 2 \<and> out_file s' = out_file s1 \<and>
              (\<exists>d. d \<noteq> [] \<and> console s' = console s1 @ [] @ d)
         else console s' = console s1 @ [] \<and>
              ((\<exists>e. status s' = Raised e) \<and> out_file s' = out_file s1 \<or>
               status s' = status s1 \<and> (\<exists>t. out_file s' = out_file s1 @ t @ nl))"
      using n2(3) unfolding same n1(3) True run .
    show ?thesis unfolding outcome_def
      apply (intro exI[of _ "new1 @ new2"])
      unfolding fl using c k r by blast
  next
    case False
    then have e: "s' = s2" by (rule stop)
    have k: "\<forall>x\<in>set new1. fst x = Simulate \<longrightarrow>
           fst (snd x) = simulation_command cfg (int (length (outputs cfg)) - 1)"
      using sim1 by auto
    have r: "if \<exists>x\<in>set new1. snd (snd x) \<noteq> 0
         then status s2 = Exited 2 \<and> out_file s2 = out_file s1 \<and>
              (\<exists>d. d \<noteq> [] \<and> console s2 = console s1 @ [] @ d)
         else console s2 = console s1 @ [] \<and>
              ((\<exists>e. status s2 = Raised e) \<and> out_file s2 = out_file s1 \<or>
               status s2 = status s1 \<and> (\<exists>t. out_file s2 = out_file s1 @ t @ nl))"
    proof (cases "\<exists>x\<in>set new1. snd (snd x) \<noteq> 0")
      case True
      with n1(4) obtain d where "status s2 = Exited 2" "console s2 = console s1 @ [d]" by auto
      then have "status s2 = Exited 2 \<and> out_file s2 = out_file s1 \<and>
              (\<exists>d. d \<noteq> [] \<and> console s2 = console s1 @ [] @ d)"
        using n1(3) by (intro conjI exI[of _ "[d]"]) simp_all
      with True show ?thesis by simp
    next
      case no: False
      with n1(4) have "console s2 = console s1" "status s2 = status s1 \<or> (\<exists>e. status s2 = Raised e)"
        by auto
      with False run have "console s2 = console s1 @ [] \<and> (\<exists>e. status s2 = Raised e) \<and> out_file s2 = out_file s1"
        using n1(3) by auto
      with no show ?thesis by simp
    qed
    show ?thesis unfolding outcome_def e
      apply (intro exI[of _ new1])
      unfolding fl1 using n1(1) k r by blast
  qed
qed

lemma outcome_run_row:
  assumes "status s = Running"
  shows "outcome cfg [''Running simulation with inputs: '' @ line] s
           (run_row sh np cfg line inputs_values s)"
proof -
  let ?s0 = "print (''Running simulation with inputs: '' @ line) s"
  obtain p0 s1 where p0: "popen sh Cleanup (cleanup_command cfg) ?s0 = (p0, s1)"
    by (cases "popen sh Cleanup (cleanup_command cfg) ?s0")
  note f = popen_fields[OF p0]
  let ?s2 = "prepare_simbox sh (commands cfg) s1"
  let ?s3 = "bind_inputs sh cfg inputs_values 0 ?s2"
  let ?s4 = "capture_outputs sh cfg (outputs cfg) ?s3"
  let ?s' = "run_row sh np cfg line inputs_values s"
  have s1: "status s1 = Running" using f(4) assms by (simp add: print_def)
  have rr: "?s' = (if status ?s2 \<noteq> Running then ?s2
                   else if status ?s3 \<noteq> Running then ?s3
                   else if status ?s4 \<noteq> Running then ?s4
                   else simulate sh np cfg ?s4)"
    using p0 by (simp add: run_row_def Let_def)
  have ph2: "phase Configure s1 ?s2" by (rule phase_prepare_simbox)
  have ph3: "phase Bind ?s2 ?s3" by (rule phase_bind_inputs)
  have ph4: "phase Capture ?s3 ?s4" by (rule phase_capture_outputs)
  have o4: "outcome cfg [] ?s4 (simulate sh np cfg ?s4)" by (rule outcome_simulate)
  have o3: "status ?s3 = Running \<Longrightarrow>
      outcome cfg [] ?s3 (if status ?s4 \<noteq> Running then ?s4 else simulate sh np cfg ?s4)"
    by (rule outcome_after_phase[OF _ ph4]) (simp_all add: o4)
  have o2: "status ?s2 = Running \<Longrightarrow>
      outcome cfg [] ?s2 (if status ?s3 \<noteq> Running then ?s3
                   else if status ?s4 \<noteq> Running then ?s4
                   else simulate sh np cfg ?s4)"
    by (rule outcome_after_phase[OF _ ph3]) (simp_all add: o3)
  have o1: "outcome cfg [] s1 ?s'"
    unfolding rr by (rule outcome_after_phase[OF s1 ph2]) (simp_all add: o2)
  then obtain new where n: "calls ?s' = calls s1 @ new"
      "\<forall>x\<in>set new. fst x = Simulate \<longrightarrow>
           fst (snd x) = simulation_command cfg (int (length (outputs cfg)) - 1)"
      "if \<exists>x\<in>set new. failed x
         then status ?s' = Exited 2 \<and> out_file ?s' = out_file s1 \<and>
              (\<exists>d. d \<noteq> [] \<and> console ?s' = console s1 @ [] @ d)
         else console ?s' = console s1 @ [] \<and>
              ((\<exists>e. status ?s' = Raised e) \<and> out_file ?s' = out_file s1 \<or>
               status ?s' = status s1 \<and> (\<exists>t. out_file ?s' = out_file s1 @ t @ nl))"
    unfolding outcome_def by blast
  let ?c = "(Cleanup, cleanup_command cfg, returncode p0)"
  have c: "calls ?s' = calls s @ (?c # new)" using n(1) f(1) by (simp add: print_def)
  have k: "\<forall>x\<in>set (?c # new). fst x = Simulate \<longrightarrow>
           fst (snd x) = simulation_command cfg (int (length (outputs cfg)) - 1)"
    using n(2) by simp
  have fl: "(\<exists>x\<in>set (?c # new). failed x) = (\<exists>x\<in>set new. failed x)"
    by (simp add: failed_def)
  have e: "out_file s1 = out_file s" "status s1 = status s"
    "console s1 @ [] = console s @ [''Running simulation with inputs: '' @ line]"
    using f by (simp_all add: print_def)
  have r: "if \<exists>x\<in>set new. failed x
         then status ?s' = Exited 2 \<and> out_file ?s' = out_file s \<and>
              (\<exists>d. d \<noteq> [] \<and> console ?s' = console s @ [''Running simulation with inputs: '' @ line] @ d)
         else console ?s' = console s @ [''Running simulation with inputs: '' @ line] \<and>
              ((\<exists>e. status ?s' = Raised e) \<and> out_file ?s' = out_file s \<or>
               status ?s' = status s \<and> (\<exists>t. out_file ?s' = out_file s @ t @ nl))"
    using n(3) e by (auto split: if_splits)
  show ?thesis unfolding outcome_def
    apply (intro exI[of _ "?c # new"])
    unfolding fl using c k r by blast
qed

subsection \<open>The row loop\<close>

lemma main_loop_stopped: "status s \<noteq> Running \<Longrightarrow> main_loop sh np cfg raws s = s"
  by (cases raws) auto

lemma main_loop_append:
  "main_loop sh np cfg (xs @ ys) s = main_loop sh np cfg ys (main_loop sh np cfg xs s)"
  by (induction xs arbitrary: s) (auto simp: main_loop_stopped)

lemma loop_body_accepted:
  "accepted cfg raw \<Longrightarrow>
   loop_body sh np cfg raw s =
     run_row sh np cfg (py_strip raw) (py_split CHR '','' (py_strip raw)) s"
  using py_split_not_Nil[of "CHR '',''" "py_strip raw"]
  by (simp add: loop_body_def accepted_def Let_def)

lemma loop_body_rejected:
  "\<not> accepted cfg raw \<Longrightarrow> loop_body sh np cfg raw s = print column_error s"
  using py_split_not_Nil[of "CHR '',''" "py_strip raw"]
  by (simp add: loop_body_def accepted_def Let_def)

lemma outcome_loop_body:
  assumes "status s = Running" "accepted cfg raw"
  shows "outcome cfg [''Running simulation with inputs: '' @ py_strip raw] s
           (loop_body sh np cfg raw s)"
  unfolding loop_body_accepted[OF assms(2)] by (rule outcome_run_row[OF assms(1)])

lemma new_calls_append: "calls s' = calls s @ new \<Longrightarrow> new_calls s s' = new"
  by (simp add: new_calls_def)

lemma simulate_call:
  "\<exists>rc. calls (simulate sh np cfg s) =
          calls s @ [(Simulate, simulation_command cfg (int (length (outputs cfg)) - 1), rc)] \<and>
        stopOnValidOf (simulate sh np cfg s) = int (length (outputs cfg)) - 1 \<and>
        (status (simulate sh np cfg s) = Running \<longrightarrow> rc = 0)"
proof -
  let ?n = "int (length (outputs cfg)) - 1"
  obtain p s2 where p: "popen sh Simulate (simulation_command cfg ?n) (s\<lparr>stopOnValidOf := ?n\<rparr>) = (p, s2)"
    by (cases "popen sh Simulate (simulation_command cfg ?n) (s\<lparr>stopOnValidOf := ?n\<rparr>)")
  note f = popen_fields[OF p]
  have "calls (simulate sh np cfg s) = calls s @ [(Simulate, simulation_command cfg ?n, returncode p)]"
    "stopOnValidOf (simulate sh np cfg s) = ?n"
    "status (simulate sh np cfg s) = Running \<longrightarrow> returncode p = 0"
    using p f by (auto simp: simulate_def Let_def sys_exit_def print_def raise_def file_write_def
        split: sum.splits)
  then show ?thesis by blast
qed

lemma run_row_completed:
  assumes "status (run_row sh np cfg line vs s) = Running"
  shows "\<exists>s4. run_row sh np cfg line vs s = simulate sh np cfg s4"
  using assms by (auto simp: run_row_def Let_def split: if_splits)

lemmas run_defs = loop_body_def run_row_def simulate_def popen_def print_def sys_exit_def raise_def
  file_write_def initial_def design_def engine_def commands_def simbox_def cleanup_command_def
  bind_command_def capture_command_def simulation_command_def decode_def strip_prefix_def
  extract_latency_def format_fields_def py_strip_def py_strip_chars_def py_replace_def
  py_isspace_def nl_def dq_def str_int_def str_nat.simps digit_chars_def Let_def tenths_def
  accepted_def

text \<open>
  C4. In a row every simulation is started with the command whose stop condition is the
  number of outputs minus one, whatever the value of \<^verbatim>\<open>stopOnValidOf\<close> in the state the
  row starts from (the value from the command line, for the first row). A row that is
  accepted and leaves the process running has ended with such a simulation, which
  succeeded, and has assigned that number to \<^verbatim>\<open>stopOnValidOf\<close>.
\<close>

theorem stop_condition_is_last_output:
  assumes "status s = Running"
  shows "(\<forall>x\<in>set (new_calls s (loop_body sh np cfg raw s)). fst x = Simulate \<longrightarrow>
            fst (snd x) =
              ''bondmachine -bondmachine-file '' @ working_dir cfg
              @ ''/bondmachine.json -simbox-file '' @ working_dir cfg
              @ ''/simboxtemp.json -sim-stop-on-valid-of ''
              @ str_int (int (length (outputs cfg)) - 1)
              @ '' -sim -sim-interactions '' @ simulation_steps cfg @ '' ''
              @ linear_data_range cfg) \<and>
         (accepted cfg raw \<and> status (loop_body sh np cfg raw s) = Running \<longrightarrow>
            last (calls (loop_body sh np cfg raw s)) =
              (Simulate, simulation_command cfg (int (length (outputs cfg)) - 1), 0) \<and>
            stopOnValidOf (loop_body sh np cfg raw s) = int (length (outputs cfg)) - 1)"
proof (rule conjI)
  show "\<forall>x\<in>set (new_calls s (loop_body sh np cfg raw s)). fst x = Simulate \<longrightarrow>
            fst (snd x) =
              ''bondmachine -bondmachine-file '' @ working_dir cfg
              @ ''/bondmachine.json -simbox-file '' @ working_dir cfg
              @ ''/simboxtemp.json -sim-stop-on-valid-of ''
              @ str_int (int (length (outputs cfg)) - 1)
              @ '' -sim -sim-interactions '' @ simulation_steps cfg @ '' ''
              @ linear_data_range cfg"
  proof (cases "accepted cfg raw")
    case True
    from outcome_loop_body[OF assms True, of sh np]
    obtain new where n: "calls (loop_body sh np cfg raw s) = calls s @ new"
      "\<forall>x\<in>set new. fst x = Simulate \<longrightarrow>
           fst (snd x) = simulation_command cfg (int (length (outputs cfg)) - 1)"
      unfolding outcome_def by blast
    from n(2) show ?thesis
      unfolding new_calls_append[OF n(1)] by (simp add: simulation_command_def)
  next
    case False
    then show ?thesis
      by (simp add: loop_body_rejected new_calls_def print_def)
  qed
next
  show "accepted cfg raw \<and> status (loop_body sh np cfg raw s) = Running \<longrightarrow>
            last (calls (loop_body sh np cfg raw s)) =
              (Simulate, simulation_command cfg (int (length (outputs cfg)) - 1), 0) \<and>
            stopOnValidOf (loop_body sh np cfg raw s) = int (length (outputs cfg)) - 1"
  proof (rule impI)
  assume a: "accepted cfg raw \<and> status (loop_body sh np cfg raw s) = Running"
  then have a1: "accepted cfg raw" and a2: "status (loop_body sh np cfg raw s) = Running"
    by simp_all
  note lb = loop_body_accepted[OF a1, of sh np s]
  from a2 have "status (run_row sh np cfg (py_strip raw) (py_split CHR '','' (py_strip raw)) s) = Running"
    unfolding lb .
  from run_row_completed[OF this] obtain s4 where
    s4: "loop_body sh np cfg raw s = simulate sh np cfg s4"
    unfolding lb by blast
  from simulate_call[of sh np cfg s4] obtain rc where
    rc: "calls (simulate sh np cfg s4) =
          calls s4 @ [(Simulate, simulation_command cfg (int (length (outputs cfg)) - 1), rc)]"
      "stopOnValidOf (simulate sh np cfg s4) = int (length (outputs cfg)) - 1"
      "status (simulate sh np cfg s4) = Running \<longrightarrow> rc = 0"
    by blast
  from rc(3) a2 have "rc = 0" unfolding s4 by simp
  with rc(1,2)
  show "last (calls (loop_body sh np cfg raw s)) =
              (Simulate, simulation_command cfg (int (length (outputs cfg)) - 1), 0) \<and>
            stopOnValidOf (loop_body sh np cfg raw s) = int (length (outputs cfg)) - 1"
    unfolding s4 by simp
qed
qed

theorem stop_condition_is_last_output_witness:
  "status (initial (0::nat) 7) = Running \<and>
   accepted design (''1,2'' @ nl) \<and>
   status (loop_body (engine 100 ''0f3.5'') tenths design (''1,2'' @ nl) (initial 0 7)) = Running \<and>
   last (calls (loop_body (engine 100 ''0f3.5'') tenths design (''1,2'' @ nl) (initial 0 7))) =
     (Simulate,
      ''bondmachine -bondmachine-file wd/bondmachine.json -simbox-file wd/simboxtemp.json -sim-stop-on-valid-of 0 -sim -sim-interactions 200 '',
      0) \<and>
   stopOnValidOf (loop_body (engine 100 ''0f3.5'') tenths design (''1,2'' @ nl) (initial 0 7)) = 0"
proof -
  have h1: "status (initial (0::nat) 7) = Running" by (simp add: initial_def)
  have h2: "accepted design (''1,2'' @ nl)" by (simp add: run_defs)
  have h3: "status (loop_body (engine 100 ''0f3.5'') tenths design (''1,2'' @ nl) (initial 0 7)) = Running"
    by (simp add: run_defs)
  have c: "simulation_command design 0 =
      ''bondmachine -bondmachine-file wd/bondmachine.json -simbox-file wd/simboxtemp.json -sim-stop-on-valid-of 0 -sim -sim-interactions 200 ''"
    by (simp add: run_defs)
  have n: "int (length (outputs design)) - 1 = 0" by (simp add: design_def)
  from stop_condition_is_last_output[OF h1, of "engine 100 ''0f3.5''" tenths design "''1,2'' @ nl"] h2 h3
  have "last (calls (loop_body (engine 100 ''0f3.5'') tenths design (''1,2'' @ nl) (initial 0 7))) =
              (Simulate, simulation_command design (int (length (outputs design)) - 1), 0) \<and>
        stopOnValidOf (loop_body (engine 100 ''0f3.5'') tenths design (''1,2'' @ nl) (initial 0 7)) =
          int (length (outputs design)) - 1"
    by blast
  then show ?thesis unfolding n c using h1 h2 h3 by blast
qed

text \<open>
  C5. The split of a line at its commas never has zero fields, so the branch that skips
  a line (line 149) is never taken. A blank line has one field, the empty text: with the
  two-input design it is answered with the column-count diagnostic, and with a one-input
  design it is run as a row with an empty value and a record is written.
\<close>

theorem blank_line_is_not_skipped:
  "0 < length (py_split CHR '','' (py_strip raw)) \<and>
   py_split CHR '','' (py_strip nl) = [[]] \<and>
   console (loop_body (engine 100 ''0f3.5'') tenths design nl (initial 0 (- 1))) = [column_error] \<and>
   out_file (loop_body (engine 100 ''0f3.5'') tenths (design\<lparr>inputs := [(''0'', ''a'')]\<rparr>) nl
      (initial 0 (- 1))) = ''3.5'' @ nl"
proof -
  have 1: "0 < length (py_split CHR '','' (py_strip raw))"
    using py_split_not_Nil[of "CHR '',''" "py_strip raw"] by simp
  have 2: "py_split CHR '','' (py_strip nl) = [[]]"
    by (simp add: run_defs)
  have 3: "console (loop_body (engine 100 ''0f3.5'') tenths design nl (initial 0 (- 1))) = [column_error]"
    by (simp add: run_defs)
  have 4: "out_file (loop_body (engine 100 ''0f3.5'') tenths (design\<lparr>inputs := [(''0'', ''a'')]\<rparr>) nl
      (initial 0 (- 1))) = ''3.5'' @ nl"
    by (simp add: run_defs)
  from 1 2 3 4 show ?thesis by blast
qed

text \<open>
  C6. A line whose number of fields differs from the number of inputs prints the
  column-count diagnostic and changes nothing else: nothing is written, no subprocess is
  started, the process keeps running, and the loop goes on with the remaining lines from
  that state, so the records of the run are those of the remaining lines.
\<close>

theorem rejected_row_is_skipped_and_batch_continues:
  assumes "status s = Running"
    and "length (py_split CHR '','' (py_strip raw)) \<noteq> length (inputs cfg)"
  shows "loop_body sh np cfg raw s = print column_error s \<and>
         console (loop_body sh np cfg raw s) =
           console s @ [''Error: The input file has an invalid number of columns''] \<and>
         out_file (loop_body sh np cfg raw s) = out_file s \<and>
         calls (loop_body sh np cfg raw s) = calls s \<and>
         status (loop_body sh np cfg raw s) = Running \<and>
         main_loop sh np cfg (raw # rest) s = main_loop sh np cfg rest (print column_error s) \<and>
         row_records sh np cfg (raw # rest) s = row_records sh np cfg rest (print column_error s)"
proof -
  have r: "\<not> accepted cfg raw" using assms(2) by (simp add: accepted_def)
  note lb = loop_body_rejected[OF r, of sh np s]
  show ?thesis unfolding lb using assms(1) by (simp add: lb print_def column_error_def)
qed

theorem rejected_row_is_skipped_and_batch_continues_witness:
  "status (initial (0::nat) (- 1)) = Running \<and>
   length (py_split CHR '','' (py_strip (''1'' @ nl))) \<noteq> length (inputs design) \<and>
   out_file (main_loop (engine 100 ''0f3.5'') tenths design [''1'' @ nl, ''1,2'' @ nl]
      (initial 0 (- 1))) = ''3.5'' @ nl \<and>
   console (main_loop (engine 100 ''0f3.5'') tenths design [''1'' @ nl, ''1,2'' @ nl]
      (initial 0 (- 1))) = [column_error, ''Running simulation with inputs: 1,2'']"
proof -
  have h1: "status (initial (0::nat) (- 1)) = Running" by (simp add: initial_def)
  have h2: "length (py_split CHR '','' (py_strip (''1'' @ nl))) \<noteq> length (inputs design)"
    by (simp add: run_defs)
  from rejected_row_is_skipped_and_batch_continues[OF h1 h2, of "engine 100 ''0f3.5''" tenths "[''1,2'' @ nl]"]
  have m: "main_loop (engine 100 ''0f3.5'') tenths design [''1'' @ nl, ''1,2'' @ nl] (initial 0 (- 1)) =
      main_loop (engine 100 ''0f3.5'') tenths design [''1,2'' @ nl] (print column_error (initial 0 (- 1)))"
    by blast
  have o: "out_file (main_loop (engine 100 ''0f3.5'') tenths design [''1,2'' @ nl]
      (print column_error (initial 0 (- 1)))) = ''3.5'' @ nl"
    by (simp add: run_defs)
  have c: "console (main_loop (engine 100 ''0f3.5'') tenths design [''1,2'' @ nl]
      (print column_error (initial 0 (- 1)))) = [column_error, ''Running simulation with inputs: 1,2'']"
    by (simp add: run_defs)
  show ?thesis unfolding m using h1 h2 o c by blast
qed

text \<open>
  C7. Let the rows before a row leave the process running, and let a configuration, bind,
  capture or simulation call of that row end with a status that is not zero. Then the
  whole run ends in the state that row leaves: the process has exited with status 2, a
  diagnostic was printed after the line announcing the row, no later row is run, and the
  output file is what the earlier rows had written.
\<close>

theorem failed_call_ends_the_process:
  assumes "status (main_loop sh np cfg before s0) = Running"
    and "\<exists>x\<in>set (new_calls (main_loop sh np cfg before s0)
                  (loop_body sh np cfg raw (main_loop sh np cfg before s0))).
           fst x \<in> {Configure, Bind, Capture, Simulate} \<and> snd (snd x) \<noteq> 0"
  shows "status (main_loop sh np cfg (before @ raw # rest) s0) = Exited 2 \<and>
         out_file (main_loop sh np cfg (before @ raw # rest) s0) =
           out_file (main_loop sh np cfg before s0) \<and>
         (\<exists>d. d \<noteq> [] \<and>
            console (main_loop sh np cfg (before @ raw # rest) s0) =
              console (main_loop sh np cfg before s0)
              @ [''Running simulation with inputs: '' @ py_strip raw] @ d) \<and>
         main_loop sh np cfg (before @ raw # rest) s0 =
           loop_body sh np cfg raw (main_loop sh np cfg before s0) \<and>
         (s0 = file_write (header_text cfg) (initial w stop) \<longrightarrow>
            simbatch sh np cfg (before @ raw # rest) w stop =
              loop_body sh np cfg raw (main_loop sh np cfg before s0))"
proof -
  let ?s = "main_loop sh np cfg before s0"
  let ?s' = "loop_body sh np cfg raw ?s"
  have acc: "accepted cfg raw"
  proof (rule ccontr)
    assume "\<not> accepted cfg raw"
    then have "new_calls ?s ?s' = []"
      by (simp add: loop_body_rejected new_calls_def print_def)
    with assms(2) show False by simp
  qed
  from outcome_loop_body[OF assms(1) acc, of sh np]
  obtain new where n: "calls ?s' = calls ?s @ new"
    "if \<exists>x\<in>set new. failed x
         then status ?s' = Exited 2 \<and> out_file ?s' = out_file ?s \<and>
              (\<exists>d. d \<noteq> [] \<and> console ?s' = console ?s @ [''Running simulation with inputs: '' @ py_strip raw] @ d)
         else console ?s' = console ?s @ [''Running simulation with inputs: '' @ py_strip raw] \<and>
              ((\<exists>e. status ?s' = Raised e) \<and> out_file ?s' = out_file ?s \<or>
               status ?s' = status ?s \<and> (\<exists>t. out_file ?s' = out_file ?s @ t @ nl))"
    unfolding outcome_def by blast
  from assms(2) obtain x where "x \<in> set new"
    "fst x \<in> {Configure, Bind, Capture, Simulate}" "snd (snd x) \<noteq> 0"
    unfolding new_calls_append[OF n(1)] by blast
  then have "x \<in> set new" "failed x" by (auto simp: failed_def)
  then have "\<exists>x\<in>set new. failed x" by blast
  with n(2) have r: "status ?s' = Exited 2" "out_file ?s' = out_file ?s"
    "\<exists>d. d \<noteq> [] \<and> console ?s' = console ?s @ [''Running simulation with inputs: '' @ py_strip raw] @ d"
    by simp_all
  have m: "main_loop sh np cfg (before @ raw # rest) s0 = ?s'"
    using assms(1) r(1) by (simp add: main_loop_append main_loop_stopped)
  have b: "s0 = file_write (header_text cfg) (initial w stop) \<longrightarrow>
            simbatch sh np cfg (before @ raw # rest) w stop = ?s'"
  proof
    assume e: "s0 = file_write (header_text cfg) (initial w stop)"
    have "simbatch sh np cfg (before @ raw # rest) w stop =
        (if status (main_loop sh np cfg (before @ raw # rest) s0) = Running
         then sys_exit 0 (main_loop sh np cfg (before @ raw # rest) s0)
         else main_loop sh np cfg (before @ raw # rest) s0)"
      unfolding e by (simp add: simbatch_def Let_def)
    then show "simbatch sh np cfg (before @ raw # rest) w stop = ?s'"
      unfolding m using r(1) by simp
  qed
  from r m b show ?thesis by simp
qed

theorem failed_call_ends_the_process_witness:
  "status (main_loop (engine 20 ''0f3.5'') tenths design [''1,2'' @ nl] (initial 0 (- 1))) = Running \<and>
   (Simulate, simulation_command design 0, 1) \<in>
     set (new_calls (main_loop (engine 20 ''0f3.5'') tenths design [''1,2'' @ nl] (initial 0 (- 1)))
       (loop_body (engine 20 ''0f3.5'') tenths design (''3,4'' @ nl)
         (main_loop (engine 20 ''0f3.5'') tenths design [''1,2'' @ nl] (initial 0 (- 1))))) \<and>
   status (main_loop (engine 20 ''0f3.5'') tenths design [''1,2'' @ nl, ''3,4'' @ nl, ''5,6'' @ nl]
     (initial 0 (- 1))) = Exited 2 \<and>
   out_file (main_loop (engine 20 ''0f3.5'') tenths design [''1,2'' @ nl, ''3,4'' @ nl, ''5,6'' @ nl]
     (initial 0 (- 1))) = ''3.5'' @ nl"
proof -
  let ?sh = "engine 20 ''0f3.5''"
  let ?s = "main_loop ?sh tenths design [''1,2'' @ nl] (initial 0 (- 1))"
  have s: "?s = loop_body ?sh tenths design (''1,2'' @ nl) (initial 0 (- 1))"
    by (simp add: initial_def)
  have h1: "status ?s = Running" unfolding s by (simp add: run_defs)
  have o: "out_file ?s = ''3.5'' @ nl" unfolding s by (simp add: run_defs)
  have k: "(Simulate, simulation_command design 0, 1) \<in>
     set (new_calls ?s (loop_body ?sh tenths design (''3,4'' @ nl) ?s))"
    unfolding s by (simp add: run_defs new_calls_def)
  then have h2: "\<exists>x\<in>set (new_calls ?s (loop_body ?sh tenths design (''3,4'' @ nl) ?s)).
           fst x \<in> {Configure, Bind, Capture, Simulate} \<and> snd (snd x) \<noteq> 0"
    by (intro bexI[of _ "(Simulate, simulation_command design 0, 1)"]) simp_all
  from failed_call_ends_the_process[OF h1 h2, of "[''5,6'' @ nl]"]
  have "status (main_loop ?sh tenths design ([''1,2'' @ nl] @ (''3,4'' @ nl) # [''5,6'' @ nl])
     (initial 0 (- 1))) = Exited 2 \<and>
   out_file (main_loop ?sh tenths design ([''1,2'' @ nl] @ (''3,4'' @ nl) # [''5,6'' @ nl])
     (initial 0 (- 1))) = out_file ?s"
    by blast
  then have "status (main_loop ?sh tenths design [''1,2'' @ nl, ''3,4'' @ nl, ''5,6'' @ nl]
     (initial 0 (- 1))) = Exited 2 \<and>
   out_file (main_loop ?sh tenths design [''1,2'' @ nl, ''3,4'' @ nl, ''5,6'' @ nl]
     (initial 0 (- 1))) = ''3.5'' @ nl"
    unfolding o by (simp only: append_Cons append_Nil)
  with h1 k show ?thesis by blast
qed

subsection \<open>The capture requests\<close>

lemma capture_outputs_calls:
  "\<exists>rcs. length rcs \<le> length outs \<and>
         calls (capture_outputs sh cfg outs s) =
           calls s @ map (\<lambda>(out, rc). (Capture, capture_command cfg (snd out), rc)) (zip outs rcs) \<and>
         (status (capture_outputs sh cfg outs s) = Running \<longrightarrow>
            length rcs = length outs \<and> (\<forall>rc\<in>set rcs. rc = 0))"
proof (induction outs arbitrary: s)
  case Nil
  show ?case by simp
next
  case (Cons out outs)
  obtain name cid where out: "out = (name, cid)" by (cases out)
  obtain p s1 where p: "popen sh Capture (capture_command cfg cid) s = (p, s1)"
    by (cases "popen sh Capture (capture_command cfg cid) s")
  note f = popen_fields[OF p]
  show ?case
  proof (cases "returncode p = 0")
    case False
    have "length [returncode p] \<le> length (out # outs) \<and>
         calls (capture_outputs sh cfg (out # outs) s) =
           calls s @ map (\<lambda>(out, rc). (Capture, capture_command cfg (snd out), rc))
             (zip (out # outs) [returncode p]) \<and>
         (status (capture_outputs sh cfg (out # outs) s) = Running \<longrightarrow>
            length [returncode p] = length (out # outs) \<and> (\<forall>rc\<in>set [returncode p]. rc = 0))"
      using False p f out by (simp add: sys_exit_def print_def)
    then show ?thesis by blast
  next
    case True
    from Cons[of s1] obtain rcs where r: "length rcs \<le> length outs"
      "calls (capture_outputs sh cfg outs s1) =
           calls s1 @ map (\<lambda>(out, rc). (Capture, capture_command cfg (snd out), rc)) (zip outs rcs)"
      "status (capture_outputs sh cfg outs s1) = Running \<longrightarrow>
            length rcs = length outs \<and> (\<forall>rc\<in>set rcs. rc = 0)"
      by blast
    have e: "capture_outputs sh cfg (out # outs) s = capture_outputs sh cfg outs s1"
      using True p out by simp
    have "length (0 # rcs) \<le> length (out # outs) \<and>
         calls (capture_outputs sh cfg (out # outs) s) =
           calls s @ map (\<lambda>(out, rc). (Capture, capture_command cfg (snd out), rc))
             (zip (out # outs) (0 # rcs)) \<and>
         (status (capture_outputs sh cfg (out # outs) s) = Running \<longrightarrow>
            length (0 # rcs) = length (out # outs) \<and> (\<forall>rc\<in>set (0 # rcs). rc = 0))"
      unfolding e using r f(1) True out by simp
    then show ?thesis by blast
  qed
qed

lemma capture_command_encoding:
  "capture_command cfg capture_id =
     simbox cfg @ '' -add '' @ dq @ ''onexit:show:'' @ capture_id @ '':''
     @ (if benchCore cfg \<and> capture_id = ''o'' @ str_int (int (length (outputs cfg)) - 1)
        then ''unsigned'' else data_type cfg) @ dq"
  by (simp add: capture_command_def)

lemma capture_command_text:
  "capture_command cfg capture_id =
     ''simbox -simbox-file '' @ working_dir cfg @ ''/simboxtemp.json''
     @ '' -add '' @ dq @ ''onexit:show:'' @ capture_id @ '':''
     @ (if benchCore cfg \<and> capture_id = ''o'' @ str_int (int (length (outputs cfg)) - 1)
        then ''unsigned'' else data_type cfg) @ dq"
  by (simp add: capture_command_def simbox_def)

text \<open>
  C8 (as amended). The capture loop of a row starts, for the entries of the outputs in
  their order and until one of them fails, the request to show the entry's capture
  identifier on exit. The encoding of a request is the configured data type, except in
  benchmark mode for the identifier \<open>o\<close> followed by the number of outputs minus one,
  where it is \<open>unsigned\<close>, whichever entry carries that identifier. A loop that leaves
  the process running has started a request for every entry.
\<close>

theorem capture_encoding_per_output:
  "\<exists>rcs. length rcs \<le> length (outputs cfg) \<and>
     new_calls s (capture_outputs sh cfg (outputs cfg) s) =
       map (\<lambda>(out, rc).
              (Capture,
               ''simbox -simbox-file '' @ working_dir cfg @ ''/simboxtemp.json''
               @ '' -add '' @ dq @ ''onexit:show:'' @ snd out @ '':''
               @ (if benchCore cfg \<and> snd out = ''o'' @ str_int (int (length (outputs cfg)) - 1)
                  then ''unsigned'' else data_type cfg) @ dq,
               rc))
         (zip (outputs cfg) rcs) \<and>
     (status (capture_outputs sh cfg (outputs cfg) s) = Running \<longrightarrow>
        length rcs = length (outputs cfg) \<and> (\<forall>rc\<in>set rcs. rc = 0))"
proof -
  from capture_outputs_calls[of "outputs cfg" sh cfg s]
  obtain rcs where r: "length rcs \<le> length (outputs cfg)"
    "calls (capture_outputs sh cfg (outputs cfg) s) =
       calls s @ map (\<lambda>(out, rc). (Capture, capture_command cfg (snd out), rc)) (zip (outputs cfg) rcs)"
    "status (capture_outputs sh cfg (outputs cfg) s) = Running \<longrightarrow>
        length rcs = length (outputs cfg) \<and> (\<forall>rc\<in>set rcs. rc = 0)"
    by blast
  have n: "new_calls s (capture_outputs sh cfg (outputs cfg) s) =
       map (\<lambda>(out, rc).
              (Capture,
               ''simbox -simbox-file '' @ working_dir cfg @ ''/simboxtemp.json''
               @ '' -add '' @ dq @ ''onexit:show:'' @ snd out @ '':''
               @ (if benchCore cfg \<and> snd out = ''o'' @ str_int (int (length (outputs cfg)) - 1)
                  then ''unsigned'' else data_type cfg) @ dq,
               rc))
         (zip (outputs cfg) rcs)"
    unfolding new_calls_append[OF r(2)] capture_command_text by (rule refl)
  from r(1) n r(3) show ?thesis by blast
qed

theorem capture_encoding_per_output_witness:
  "status (capture_outputs (engine 100 []) (design\<lparr>benchCore := True, outputs := [(''0'', ''o0''), (''1'', ''o1'')]\<rparr>)
      [(''0'', ''o0''), (''1'', ''o1'')] (initial 0 (- 1))) = Running \<and>
   new_calls (initial 0 (- 1))
     (capture_outputs (engine 100 []) (design\<lparr>benchCore := True, outputs := [(''0'', ''o0''), (''1'', ''o1'')]\<rparr>)
        [(''0'', ''o0''), (''1'', ''o1'')] (initial 0 (- 1))) =
     [(Capture, ''simbox -simbox-file wd/simboxtemp.json -add '' @ dq @ ''onexit:show:o0:float32'' @ dq, 0),
      (Capture, ''simbox -simbox-file wd/simboxtemp.json -add '' @ dq @ ''onexit:show:o1:unsigned'' @ dq, 0)]"
proof -
  let ?outs = "[(''0'', ''o0''), (''1'', ''o1'')]"
  let ?cfg = "design\<lparr>benchCore := True, outputs := ?outs\<rparr>"
  let ?s = "initial (0::nat) (- 1)"
  have o: "outputs ?cfg = ?outs" by simp
  have c: "benchCore ?cfg" "data_type ?cfg = ''float32''" "working_dir ?cfg = ''wd''"
    by (simp_all add: design_def)
  have h: "status (capture_outputs (engine 100 []) ?cfg ?outs ?s) = Running"
    by (simp add: run_defs)
  from capture_encoding_per_output[of ?cfg ?s "engine 100 []", unfolded o]
  obtain rcs where r: "new_calls ?s (capture_outputs (engine 100 []) ?cfg ?outs ?s) =
       map (\<lambda>(out, rc).
              (Capture,
               ''simbox -simbox-file '' @ working_dir ?cfg @ ''/simboxtemp.json''
               @ '' -add '' @ dq @ ''onexit:show:'' @ snd out @ '':''
               @ (if benchCore ?cfg \<and> snd out = ''o'' @ str_int (int (length ?outs) - 1)
                  then ''unsigned'' else data_type ?cfg) @ dq,
               rc))
         (zip ?outs rcs)"
    "status (capture_outputs (engine 100 []) ?cfg ?outs ?s) = Running \<longrightarrow>
        length rcs = length ?outs \<and> (\<forall>rc\<in>set rcs. rc = 0)"
    by blast
  from r(2) h have "length rcs = Suc (Suc 0)" "\<forall>rc\<in>set rcs. rc = 0" by simp_all
  then have rcs: "rcs = [0, 0]" by (auto simp: length_Suc_conv)
  have n: "str_int (int (length ?outs) - 1) = ''1''" by (simp add: run_defs)
  from r(1) have "new_calls ?s (capture_outputs (engine 100 []) ?cfg ?outs ?s) =
     [(Capture, ''simbox -simbox-file wd/simboxtemp.json -add '' @ dq @ ''onexit:show:o0:float32'' @ dq, 0),
      (Capture, ''simbox -simbox-file wd/simboxtemp.json -add '' @ dq @ ''onexit:show:o1:unsigned'' @ dq, 0)]"
    unfolding rcs c n by simp
  with h show ?thesis by blast
qed

theorem capture_encoding_last_entry_counterexample:
  "snd (last [(''0'', ''o1''), (''1'', ''o0'')]) = ''o0'' \<and>
   benchCore (design\<lparr>benchCore := True, outputs := [(''0'', ''o1''), (''1'', ''o0'')]\<rparr>) \<and>
   new_calls (initial 0 (- 1))
     (capture_outputs (engine 100 [])
        (design\<lparr>benchCore := True, outputs := [(''0'', ''o1''), (''1'', ''o0'')]\<rparr>)
        (outputs (design\<lparr>benchCore := True, outputs := [(''0'', ''o1''), (''1'', ''o0'')]\<rparr>))
        (initial 0 (- 1))) =
     [(Capture, ''simbox -simbox-file wd/simboxtemp.json -add '' @ dq @ ''onexit:show:o1:unsigned'' @ dq, 0),
      (Capture, ''simbox -simbox-file wd/simboxtemp.json -add '' @ dq @ ''onexit:show:o0:float32'' @ dq, 0)]"
  by (simp add: run_defs new_calls_def)

subsection \<open>The output table\<close>

lemma row_records_stopped: "status s \<noteq> Running \<Longrightarrow> row_records sh np cfg raws s = []"
  by (cases raws) auto

lemma loop_body_writes:
  assumes "status s = Running"
  shows "(accepted cfg raw \<and> status (loop_body sh np cfg raw s) = Running \<and>
            (\<exists>t. out_file (loop_body sh np cfg raw s) = out_file s @ t @ nl)) \<or>
         (accepted cfg raw \<and> status (loop_body sh np cfg raw s) \<noteq> Running \<and>
            out_file (loop_body sh np cfg raw s) = out_file s) \<or>
         (\<not> accepted cfg raw \<and> status (loop_body sh np cfg raw s) = Running \<and>
            out_file (loop_body sh np cfg raw s) = out_file s)"
proof (cases "accepted cfg raw")
  case False
  then show ?thesis using assms by (simp add: loop_body_rejected print_def)
next
  case True
  let ?s' = "loop_body sh np cfg raw s"
  from outcome_loop_body[OF assms True, of sh np]
  obtain new where n:
    "if \<exists>x\<in>set new. failed x
         then status ?s' = Exited 2 \<and> out_file ?s' = out_file s \<and>
              (\<exists>d. d \<noteq> [] \<and> console ?s' = console s @ [''Running simulation with inputs: '' @ py_strip raw] @ d)
         else console ?s' = console s @ [''Running simulation with inputs: '' @ py_strip raw] \<and>
              ((\<exists>e. status ?s' = Raised e) \<and> out_file ?s' = out_file s \<or>
               status ?s' = status s \<and> (\<exists>t. out_file ?s' = out_file s @ t @ nl))"
    unfolding outcome_def by blast
  show ?thesis
  proof (cases "\<exists>x\<in>set new. failed x")
    case f: True
    with n have "status ?s' = Exited 2" "out_file ?s' = out_file s" by simp_all
    with True show ?thesis by simp
  next
    case f: False
    with n have "(\<exists>e. status ?s' = Raised e) \<and> out_file ?s' = out_file s \<or>
               status ?s' = status s \<and> (\<exists>t. out_file ?s' = out_file s @ t @ nl)"
      by simp
    with True assms show ?thesis by auto
  qed
qed

lemma records_of_run:
  "out_file (main_loop sh np cfg raws s) = out_file s @ concat (map snd (row_records sh np cfg raws s)) \<and>
   map fst (row_records sh np cfg raws s) =
     take (length (row_records sh np cfg raws s)) (filter (accepted cfg) raws) \<and>
   (status (main_loop sh np cfg raws s) = Running \<longrightarrow>
      map fst (row_records sh np cfg raws s) = filter (accepted cfg) raws) \<and>
   (\<forall>r\<in>set (row_records sh np cfg raws s). \<exists>t. snd r = t @ nl)"
proof (induction raws arbitrary: s)
  case Nil
  show ?case by simp
next
  case (Cons raw rest)
  show ?case
  proof (cases "status s = Running")
    case False
    then show ?thesis by simp
  next
    case True
    let ?s' = "loop_body sh np cfg raw s"
    note IH = Cons[of ?s']
    let ?recs = "row_records sh np cfg rest ?s'"
    from IH have i1: "out_file (main_loop sh np cfg rest ?s') = out_file ?s' @ concat (map snd ?recs)"
      and i2: "map fst ?recs = take (length ?recs) (filter (accepted cfg) rest)"
      and i3: "status (main_loop sh np cfg rest ?s') = Running \<longrightarrow>
                 map fst ?recs = filter (accepted cfg) rest"
      and i4: "\<forall>r\<in>set ?recs. \<exists>t. snd r = t @ nl"
      by blast+
    have ml: "main_loop sh np cfg (raw # rest) s = main_loop sh np cfg rest ?s'"
      using True by simp
    from loop_body_writes[OF True, of cfg raw sh np]
    consider (wrote) t where "accepted cfg raw" "status ?s' = Running" "out_file ?s' = out_file s @ t @ nl"
      | (ended) "accepted cfg raw" "status ?s' \<noteq> Running" "out_file ?s' = out_file s"
      | (rejected) "\<not> accepted cfg raw" "status ?s' = Running" "out_file ?s' = out_file s"
      by blast
    then show ?thesis
    proof cases
      case wrote
      have ne: "out_file ?s' \<noteq> out_file s" using wrote(3) by (simp add: nl_def)
      have rr: "row_records sh np cfg (raw # rest) s = (raw, t @ nl) # row_records sh np cfg rest ?s'"
        using True ne wrote(3) by simp
      have 1: "out_file (main_loop sh np cfg rest ?s') =
          out_file s @ concat (map snd ((raw, t @ nl) # ?recs))"
        using i1 wrote(3) by simp
      have 2: "map fst ((raw, t @ nl) # ?recs) =
          take (length ((raw, t @ nl) # ?recs)) (filter (accepted cfg) (raw # rest))"
        using i2 wrote(1) by simp
      have 3: "status (main_loop sh np cfg rest ?s') = Running \<longrightarrow>
          map fst ((raw, t @ nl) # ?recs) = filter (accepted cfg) (raw # rest)"
        using i3 wrote(1) by simp
      have 4: "\<forall>r\<in>set ((raw, t @ nl) # ?recs). \<exists>t. snd r = t @ nl"
        using i4 by simp
      show ?thesis unfolding ml rr using 1 2 3 4 by blast
    next
      case ended
      have rr: "row_records sh np cfg (raw # rest) s = []"
        using True ended by (simp add: row_records_stopped)
      have st: "main_loop sh np cfg rest ?s' = ?s'" using ended(2) by (rule main_loop_stopped)
      show ?thesis unfolding ml rr st using ended by simp
    next
      case rejected
      have rr: "row_records sh np cfg (raw # rest) s = row_records sh np cfg rest ?s'"
        using True rejected by simp
      have 1: "out_file (main_loop sh np cfg rest ?s') = out_file s @ concat (map snd ?recs)"
        using i1 rejected(3) by simp
      have 2: "map fst ?recs = take (length ?recs) (filter (accepted cfg) (raw # rest))"
        using i2 rejected(1) by simp
      have 3: "status (main_loop sh np cfg rest ?s') = Running \<longrightarrow>
          map fst ?recs = filter (accepted cfg) (raw # rest)"
        using i3 rejected(1) by simp
      show ?thesis unfolding ml rr using 1 2 3 i4 by blast
    qed
  qed
qed

subsection \<open>The written row in benchmark mode\<close>

lemma simulate_writes:
  assumes "sh (simulation_command cfg (int (length (outputs cfg)) - 1)) (world s) = (p, w)"
    and "returncode p = 0"
  shows "decode np cfg (p_stdout p) = Inl e \<Longrightarrow>
           status (simulate sh np cfg s) = Raised e \<and> out_file (simulate sh np cfg s) = out_file s"
    and "decode np cfg (p_stdout p) = Inr row \<Longrightarrow>
           status (simulate sh np cfg s) = status s \<and>
           out_file (simulate sh np cfg s) = out_file s @ row"
  using assms by (simp_all add: simulate_def popen_def Let_def raise_def file_write_def)

text \<open>
  C2 (as amended). In benchmark mode let a simulation succeed with some readout. The
  trimmed, prefix-free readout is cut at its last space character: the latency is the
  part after it (the whole readout when it has no space) and contains no space, the line
  that goes on to the argmax or plain stage is the part before it, and the tokens of that
  line are all tokens of the readout but the last. When that stage raises nothing is
  written; otherwise the text added to the output file is the decoded line, a comma, the
  latency and a newline, so that a latency without a comma is the last comma-separated
  field of the row written.
\<close>

theorem bench_row_ends_with_latency:
  assumes "benchCore cfg"
    and "sh (simulation_command cfg (int (length (outputs cfg)) - 1)) (world s) = (p, w)"
    and "returncode p = 0"
  shows "\<exists>outline latency_cycles.
     extract_latency cfg (strip_prefix cfg (p_stdout p)) = Inr (outline, latency_cycles) \<and>
     CHR '' '' \<notin> set latency_cycles \<and>
     (if CHR '' '' \<in> set (strip_prefix cfg (p_stdout p))
      then strip_prefix cfg (p_stdout p) = outline @ '' '' @ latency_cycles \<and>
           py_split CHR '' '' outline = butlast (py_split CHR '' '' (strip_prefix cfg (p_stdout p)))
      else outline = [] \<and> latency_cycles = strip_prefix cfg (p_stdout p)) \<and>
     (case format_fields np cfg outline of
        Inl e \<Rightarrow>
          status (simulate sh np cfg s) = Raised e \<and>
          out_file (simulate sh np cfg s) = out_file s
      | Inr decoded \<Rightarrow>
          status (simulate sh np cfg s) = status s \<and>
          out_file (simulate sh np cfg s) = out_file s @ decoded @ '','' @ latency_cycles @ nl \<and>
          (CHR '','' \<notin> set latency_cycles \<longrightarrow>
             last (py_split CHR '','' (butlast (drop (length (out_file s))
               (out_file (simulate sh np cfg s))))) = latency_cycles))"
proof -
  let ?s = "strip_prefix cfg (p_stdout p)"
  let ?parts = "py_split CHR '' '' ?s"
  let ?outline = "py_join '' '' (butlast ?parts)"
  let ?lat = "last ?parts"
  have ex: "extract_latency cfg ?s = Inr (?outline, ?lat)"
    using assms(1) by (simp add: extract_latency_def Let_def py_split_not_Nil)
  have free: "CHR '' '' \<notin> set ?lat" by (rule last_py_split_free)
  have cut: "if CHR '' '' \<in> set ?s
      then ?s = ?outline @ '' '' @ ?lat \<and> py_split CHR '' '' ?outline = butlast ?parts
      else ?outline = [] \<and> ?lat = ?s"
  proof (cases "CHR '' '' \<in> set ?s")
    case True
    then show ?thesis
      using py_split_last_decomp[OF True] py_split_butlast[OF True] by simp
  next
    case False
    then show ?thesis by (simp add: py_split_absent)
  qed
  have wr: "case format_fields np cfg ?outline of
        Inl e \<Rightarrow>
          status (simulate sh np cfg s) = Raised e \<and>
          out_file (simulate sh np cfg s) = out_file s
      | Inr decoded \<Rightarrow>
          status (simulate sh np cfg s) = status s \<and>
          out_file (simulate sh np cfg s) = out_file s @ decoded @ '','' @ ?lat @ nl \<and>
          (CHR '','' \<notin> set ?lat \<longrightarrow>
             last (py_split CHR '','' (butlast (drop (length (out_file s))
               (out_file (simulate sh np cfg s))))) = ?lat)"
  proof (cases "format_fields np cfg ?outline")
    case (Inl e)
    then have "decode np cfg (p_stdout p) = Inl e"
      using ex by (simp add: decode_def)
    from simulate_writes(1)[where sh=sh and s=s and cfg=cfg, OF assms(2,3) this] Inl show ?thesis by simp
  next
    case (Inr decoded)
    then have "decode np cfg (p_stdout p) = Inr (decoded @ '','' @ ?lat @ nl)"
      using ex assms(1) by (simp add: decode_def)
    from simulate_writes(2)[where sh=sh and s=s and cfg=cfg, OF assms(2,3) this]
    have w: "status (simulate sh np cfg s) = status s"
      "out_file (simulate sh np cfg s) = out_file s @ decoded @ '','' @ ?lat @ nl"
      by simp_all
    have "butlast (drop (length (out_file s)) (out_file (simulate sh np cfg s))) =
        decoded @ CHR '','' # ?lat"
      unfolding w(2) by (simp add: nl_def butlast_append)
    then have "CHR '','' \<notin> set ?lat \<longrightarrow>
             last (py_split CHR '','' (butlast (drop (length (out_file s))
               (out_file (simulate sh np cfg s))))) = ?lat"
      using last_py_split_sep[of "CHR '',''" ?lat decoded] by simp
    with w Inr show ?thesis by simp
  qed
  from ex free cut wr show ?thesis by blast
qed

theorem bench_row_ends_with_latency_witness:
  "benchCore (design\<lparr>benchCore := True\<rparr>) \<and>
   engine 100 (''0f3.5 0f42'' @ nl)
     (simulation_command (design\<lparr>benchCore := True\<rparr>)
        (int (length (outputs (design\<lparr>benchCore := True\<rparr>))) - 1))
     (world (initial 0 (- 1))) =
     (\<lparr>returncode = 0, p_stdout = ''0f3.5 0f42'' @ nl, p_stderr = []\<rparr>, Suc 0) \<and>
   out_file (simulate (engine 100 (''0f3.5 0f42'' @ nl)) tenths (design\<lparr>benchCore := True\<rparr>)
     (initial 0 (- 1))) = ''3.5,42'' @ nl \<and>
   last (py_split CHR '','' (butlast (drop (length (out_file (initial (0::nat) (- 1))))
     (out_file (simulate (engine 100 (''0f3.5 0f42'' @ nl)) tenths (design\<lparr>benchCore := True\<rparr>)
        (initial 0 (- 1))))))) = ''42''"
proof -
  let ?cfg = "design\<lparr>benchCore := True\<rparr>"
  let ?r = "''0f3.5 0f42'' @ nl"
  let ?s = "initial (0::nat) (- 1)"
  let ?p = "\<lparr>returncode = 0, p_stdout = ?r, p_stderr = []\<rparr>"
  have h1: "benchCore ?cfg" by simp
  have h2: "engine 100 ?r (simulation_command ?cfg (int (length (outputs ?cfg)) - 1)) (world ?s)
      = (?p, Suc 0)"
    by (simp add: run_defs)
  have h3: "returncode ?p = 0" by simp
  have sp: "strip_prefix ?cfg (p_stdout ?p) = ''3.5 42''" by (simp add: run_defs)
  have e: "extract_latency ?cfg ''3.5 42'' = Inr (''3.5'', ''42'')" by (simp add: run_defs)
  have f: "format_fields tenths ?cfg ''3.5'' = Inr ''3.5''" by (simp add: run_defs)
  have o0: "out_file ?s = []" by (simp add: initial_def)
  from bench_row_ends_with_latency[where sh="engine 100 ?r" and s="?s" and cfg="?cfg" and np=tenths, OF h1 h2 h3]
  obtain outline latency_cycles where
    x: "extract_latency ?cfg (strip_prefix ?cfg (p_stdout ?p)) = Inr (outline, latency_cycles)"
    and c: "case format_fields tenths ?cfg outline of
        Inl e \<Rightarrow>
          status (simulate (engine 100 ?r) tenths ?cfg ?s) = Raised e \<and>
          out_file (simulate (engine 100 ?r) tenths ?cfg ?s) = out_file ?s
      | Inr decoded \<Rightarrow>
          status (simulate (engine 100 ?r) tenths ?cfg ?s) = status ?s \<and>
          out_file (simulate (engine 100 ?r) tenths ?cfg ?s) =
            out_file ?s @ decoded @ '','' @ latency_cycles @ nl \<and>
          (CHR '','' \<notin> set latency_cycles \<longrightarrow>
             last (py_split CHR '','' (butlast (drop (length (out_file ?s))
               (out_file (simulate (engine 100 ?r) tenths ?cfg ?s))))) = latency_cycles)"
    by blast
  from x[unfolded sp e] have ol: "outline = ''3.5''" "latency_cycles = ''42''" by simp_all
  note c' = c[unfolded ol f sum.case]
  have nc: "CHR '','' \<notin> set ''42''" by simp
  from c' nc
  have A: "out_file (simulate (engine 100 ?r) tenths ?cfg ?s) = out_file ?s @ ''3.5'' @ '','' @ ''42'' @ nl"
    and B: "last (py_split CHR '','' (butlast (drop (length (out_file ?s))
               (out_file (simulate (engine 100 ?r) tenths ?cfg ?s))))) = ''42''"
    by blast+
  from A have A': "out_file (simulate (engine 100 ?r) tenths ?cfg ?s) = ''3.5,42'' @ nl"
    unfolding o0 by simp
  from A' B
  show ?thesis using h1 h2 by blast
qed

theorem bench_latency_tab_counterexample:
  "out_file (simulate (engine 100 (''0f3.5'' @ tab @ ''0f42'' @ nl)) tenths
      (design\<lparr>benchCore := True\<rparr>) (initial 0 (- 1))) = '','' @ ''3.5'' @ tab @ ''42'' @ nl \<and>
   last (py_split CHR '','' ('','' @ ''3.5'' @ tab @ ''42'')) = ''3.5'' @ tab @ ''42'' \<and>
   spec_latency_token (strip_prefix (design\<lparr>benchCore := True\<rparr>) (''0f3.5'' @ tab @ ''0f42'' @ nl))
     = ''42'' \<and>
   last (py_split CHR '','' (butlast (out_file (simulate (engine 100 (''0f3.5'' @ tab @ ''0f42'' @ nl))
      tenths (design\<lparr>benchCore := True\<rparr>) (initial 0 (- 1))))))
     \<noteq> spec_latency_token (strip_prefix (design\<lparr>benchCore := True\<rparr>) (''0f3.5'' @ tab @ ''0f42'' @ nl))"
  by (simp add: run_defs spec_latency_token_def tab_def)

subsection \<open>Records of one line\<close>

lemma set_replace_scan: "set (replace_scan old new s) \<subseteq> set s \<union> set new"
proof (induction old new s rule: replace_scan.induct)
  case (1 old new)
  show ?case by simp
next
  case (2 old new c cs)
  show ?case
  proof (cases "old \<noteq> [] \<and> take (length old) (c # cs) = old")
    case True
    with 2(1) have "set (replace_scan old new (drop (length old) (c # cs)))
        \<subseteq> set (drop (length old) (c # cs)) \<union> set new"
      by blast
    moreover have "set (drop (length old) (c # cs)) \<subseteq> set (c # cs)"
      by (rule set_drop_subset)
    ultimately show ?thesis using True by auto
  next
    case False
    with 2(2) have "set (replace_scan old new cs) \<subseteq> set cs \<union> set new" by blast
    with False show ?thesis by auto
  qed
qed

lemma set_spaces_to_commas: "set (py_replace '' '' '','' s) \<subseteq> set s \<union> {CHR '',''}"
  using set_replace_scan[of "'' ''" "'',''" s] by (simp add: py_replace_def)

lemma set_py_strip_chars: "set (py_strip_chars chars s) \<subseteq> set s"
proof -
  have "set (dropWhile (\<lambda>c. c \<in> set chars) (rev (dropWhile (\<lambda>c. c \<in> set chars) s)))
      \<subseteq> set (rev (dropWhile (\<lambda>c. c \<in> set chars) s))"
    using set_dropWhileD by fastforce
  moreover have "set (dropWhile (\<lambda>c. c \<in> set chars) s) \<subseteq> set s"
    using set_dropWhileD by fastforce
  ultimately show ?thesis by (auto simp: py_strip_chars_def)
qed

lemma set_py_join_butlast: "set (py_join [c] (butlast (py_split c s))) \<subseteq> set s"
proof (cases "c \<in> set s")
  case True
  from py_split_last_decomp[OF True]
  have "set s = set (py_join [c] (butlast (py_split c s)) @ c # last (py_split c s))"
    by simp
  then show ?thesis by auto
next
  case False
  then show ?thesis by (simp add: py_split_absent)
qed

lemma set_extract_latency:
  assumes "extract_latency cfg s = Inr (outline, latency_cycles)"
  shows "set outline \<subseteq> set s" "set latency_cycles \<subseteq> set s"
  using assms set_py_join_butlast[of "CHR '' ''" s] set_last_py_split[of "CHR '' ''" s]
  by (auto simp: extract_latency_def Let_def split: if_splits)

lemma set_format_fields:
  assumes "format_fields np cfg outline = Inr decoded"
  shows "set decoded \<subseteq> set outline \<union> {CHR '',''} \<union> set digit_chars"
proof (cases "isml cfg")
  case True
  with assms obtain k where "decoded = py_replace '' '' '','' outline @ '','' @ str_nat k"
    by (auto simp: format_fields_def split: sum.splits)
  then show ?thesis
    using set_spaces_to_commas[of outline] str_nat_digits[of k] by auto
next
  case False
  with assms have "decoded = py_replace '' '' '','' (py_strip_chars '','' outline)"
    by (simp add: format_fields_def)
  then show ?thesis
    using set_spaces_to_commas[of "py_strip_chars '','' outline"] set_py_strip_chars[of "'',''" outline]
    by auto
qed

lemma decode_one_line:
  assumes one: "CHR 0x0A \<notin> set (py_strip readout)"
    and dec: "decode np cfg readout = Inr row"
  shows "\<exists>t. row = t @ nl \<and> CHR 0x0A \<notin> set t"
proof -
  from dec obtain outline latency_cycles decoded where
    e: "extract_latency cfg (strip_prefix cfg readout) = Inr (outline, latency_cycles)"
    and f: "format_fields np cfg outline = Inr decoded"
    and r: "row = (decoded @ (if benchCore cfg then '','' @ latency_cycles else [])) @ nl"
    by (auto simp: decode_def split: sum.splits prod.splits)
  have sp: "CHR 0x0A \<notin> set (strip_prefix cfg readout)"
    using one set_strip_prefix[of cfg readout] by blast
  have "CHR 0x0A \<notin> set outline" "CHR 0x0A \<notin> set latency_cycles"
    using sp set_extract_latency[OF e] by blast+
  moreover have "CHR 0x0A \<notin> set digit_chars" by (simp add: digit_chars_def)
  ultimately have "CHR 0x0A \<notin> set (decoded @ (if benchCore cfg then '','' @ latency_cycles else []))"
    using set_format_fields[OF f] by auto
  with r show ?thesis by blast
qed

lemma phase_out_file: "phase k s s' \<Longrightarrow> out_file s' = out_file s"
  unfolding phase_def by blast

lemma run_row_completed_out:
  assumes "status (run_row sh np cfg line vs s) = Running"
  shows "\<exists>s4. run_row sh np cfg line vs s = simulate sh np cfg s4 \<and> out_file s4 = out_file s"
proof -
  let ?s0 = "print (''Running simulation with inputs: '' @ line) s"
  let ?s1 = "snd (popen sh Cleanup (cleanup_command cfg) ?s0)"
  let ?s2 = "prepare_simbox sh (commands cfg) ?s1"
  let ?s3 = "bind_inputs sh cfg vs 0 ?s2"
  let ?s4 = "capture_outputs sh cfg (outputs cfg) ?s3"
  have r: "run_row sh np cfg line vs s = simulate sh np cfg ?s4"
    using assms by (auto simp: run_row_def Let_def split: if_splits)
  have "out_file ?s1 = out_file s"
    by (simp add: popen_def print_def split: prod.splits)
  moreover have "out_file ?s2 = out_file ?s1" by (rule phase_out_file[OF phase_prepare_simbox])
  moreover have "out_file ?s3 = out_file ?s2" by (rule phase_out_file[OF phase_bind_inputs])
  moreover have "out_file ?s4 = out_file ?s3" by (rule phase_out_file[OF phase_capture_outputs])
  ultimately have "out_file ?s4 = out_file s" by simp
  with r show ?thesis by blast
qed

lemma simulate_running:
  assumes "status (simulate sh np cfg s) = Running"
  shows "\<exists>command w row. decode np cfg (p_stdout (fst (sh command w))) = Inr row \<and>
           out_file (simulate sh np cfg s) = out_file s @ row"
proof -
  let ?c = "simulation_command cfg (int (length (outputs cfg)) - 1)"
  obtain p w where p: "sh ?c (world s) = (p, w)" by (cases "sh ?c (world s)")
  from assms p have rc: "returncode p = 0"
    by (auto simp: simulate_def popen_def Let_def sys_exit_def print_def split: if_splits)
  from assms p rc obtain row where d: "decode np cfg (p_stdout p) = Inr row"
    by (cases "decode np cfg (p_stdout p)")
       (auto simp: simulate_def popen_def Let_def raise_def)
  from simulate_writes(2)[where sh=sh and s=s and cfg=cfg, OF p rc d]
  have "out_file (simulate sh np cfg s) = out_file s @ row" by simp
  moreover have "p_stdout (fst (sh ?c (world s))) = p_stdout p" using p by simp
  ultimately show ?thesis using d by metis
qed

lemma loop_body_writes_one_line:
  assumes one: "\<forall>command w. CHR 0x0A \<notin> set (py_strip (p_stdout (fst (sh command w))))"
    and acc: "accepted cfg raw"
    and run: "status (loop_body sh np cfg raw s) = Running"
  shows "\<exists>t. out_file (loop_body sh np cfg raw s) = out_file s @ t @ nl \<and> CHR 0x0A \<notin> set t"
proof -
  note lb = loop_body_accepted[OF acc, of sh np s]
  from run have "status (run_row sh np cfg (py_strip raw) (py_split CHR '','' (py_strip raw)) s) = Running"
    unfolding lb .
  from run_row_completed_out[OF this] obtain s4 where
    s4: "loop_body sh np cfg raw s = simulate sh np cfg s4" "out_file s4 = out_file s"
    unfolding lb by blast
  from run have "status (simulate sh np cfg s4) = Running" unfolding s4(1) .
  from simulate_running[OF this] obtain command w row where
    d: "decode np cfg (p_stdout (fst (sh command w))) = Inr row"
    and o: "out_file (simulate sh np cfg s4) = out_file s4 @ row"
    by blast
  from one have "CHR 0x0A \<notin> set (py_strip (p_stdout (fst (sh command w))))" by blast
  from decode_one_line[OF this d] obtain t where "row = t @ nl" "CHR 0x0A \<notin> set t" by blast
  with o s4 show ?thesis by auto
qed

lemma records_one_line:
  assumes one: "\<forall>command w. CHR 0x0A \<notin> set (py_strip (p_stdout (fst (sh command w))))"
  shows "\<forall>r\<in>set (row_records sh np cfg raws s). \<exists>t. snd r = t @ nl \<and> CHR 0x0A \<notin> set t"
proof (induction raws arbitrary: s)
  case Nil
  show ?case by simp
next
  case (Cons raw rest)
  show ?case
  proof (cases "status s = Running")
    case False
    then show ?thesis by simp
  next
    case True
    let ?s' = "loop_body sh np cfg raw s"
    note IH = Cons[of ?s']
    show ?thesis
    proof (cases "out_file ?s' = out_file s")
      case same: True
      with True have "row_records sh np cfg (raw # rest) s = row_records sh np cfg rest ?s'"
        by simp
      with IH show ?thesis by simp
    next
      case changed: False
      with loop_body_writes[OF True, of cfg raw sh np]
      have a: "accepted cfg raw" "status ?s' = Running" by auto
      from loop_body_writes_one_line[OF one a] obtain t where
        t: "out_file ?s' = out_file s @ t @ nl" "CHR 0x0A \<notin> set t"
        by blast
      have rr: "row_records sh np cfg (raw # rest) s = (raw, t @ nl) # row_records sh np cfg rest ?s'"
        using True changed t(1) by simp
      show ?thesis unfolding rr using IH t(2) by simp
    qed
  qed
qed

lemma py_split_lines:
  "\<forall>r\<in>set rs. \<exists>t. r = t @ [c] \<and> c \<notin> set t \<Longrightarrow>
   py_split c (concat rs) = map butlast rs @ [[]]"
proof (induction rs)
  case Nil
  show ?case by simp
next
  case (Cons r rs)
  then obtain t where t: "r = t @ [c]" "c \<notin> set t" by auto
  have "py_split c (concat (r # rs)) = py_split c (t @ c # concat rs)"
    by (simp add: t(1))
  also have "\<dots> = py_split c t @ py_split c (concat rs)"
    by (rule py_split_append_sep)
  also have "\<dots> = [t] @ (map butlast rs @ [[]])"
    using Cons t(2) by (simp add: py_split_absent)
  finally show ?case by (simp add: t(1))
qed

text \<open>
  C9. The records of a run are the pieces of text added to the output file, each with
  the line during which it was added. The output file is the text it had before the
  loop (the header, or nothing) followed by the records in their order; the lines of
  the records are the first accepted lines of the table in their order, and all the
  accepted lines when the process is still running at the end of the table. When every
  readout is one line (no newline inside the trimmed output of a subprocess), every
  record is one row of the table: it has no newline but its last character, and the rows
  of the text written by the loop are the records in their order. So the i-th data row
  is the record of the i-th accepted line, whatever number of rejected lines stand
  before it.
\<close>

theorem output_rows_follow_accepted_rows:
  "out_file (main_loop sh np cfg raws s) =
     out_file s @ concat (map snd (row_records sh np cfg raws s)) \<and>
   out_file (simbatch sh np cfg raws w stop) =
     header_text cfg
     @ concat (map snd (row_records sh np cfg raws (file_write (header_text cfg) (initial w stop)))) \<and>
   map fst (row_records sh np cfg raws s) =
     take (length (row_records sh np cfg raws s)) (filter (accepted cfg) raws) \<and>
   (status (main_loop sh np cfg raws s) = Running \<longrightarrow>
      map fst (row_records sh np cfg raws s) = filter (accepted cfg) raws) \<and>
   (\<forall>r\<in>set (row_records sh np cfg raws s). \<exists>t. snd r = t @ nl) \<and>
   ((\<forall>command w. CHR 0x0A \<notin> set (py_strip (p_stdout (fst (sh command w))))) \<longrightarrow>
      (\<forall>r\<in>set (row_records sh np cfg raws s). CHR 0x0A \<notin> set (butlast (snd r))) \<and>
      py_split CHR 0x0A (concat (map snd (row_records sh np cfg raws s))) =
        map (\<lambda>r. butlast (snd r)) (row_records sh np cfg raws s) @ [[]] \<and>
      (\<forall>i<length (row_records sh np cfg raws s).
         py_split CHR 0x0A (concat (map snd (row_records sh np cfg raws s))) ! i =
           butlast (snd (row_records sh np cfg raws s ! i)) \<and>
         fst (row_records sh np cfg raws s ! i) = filter (accepted cfg) raws ! i))"
proof -
  let ?s0 = "file_write (header_text cfg) (initial w stop)"
  let ?recs = "row_records sh np cfg raws s"
  have "out_file (simbatch sh np cfg raws w stop) = out_file (main_loop sh np cfg raws ?s0)"
    by (simp add: simbatch_def Let_def sys_exit_def)
  also have "\<dots> = out_file ?s0 @ concat (map snd (row_records sh np cfg raws ?s0))"
    using records_of_run[of sh np cfg raws ?s0] by blast
  finally have hd: "out_file (simbatch sh np cfg raws w stop) =
     header_text cfg @ concat (map snd (row_records sh np cfg raws ?s0))"
    by (simp add: file_write_def initial_def)
  note rr = records_of_run[of sh np cfg raws s]
  from rr have fsts: "map fst ?recs = take (length ?recs) (filter (accepted cfg) raws)"
    by blast
  have lines: "(\<forall>command w. CHR 0x0A \<notin> set (py_strip (p_stdout (fst (sh command w))))) \<longrightarrow>
      (\<forall>r\<in>set ?recs. CHR 0x0A \<notin> set (butlast (snd r))) \<and>
      py_split CHR 0x0A (concat (map snd ?recs)) = map (\<lambda>r. butlast (snd r)) ?recs @ [[]] \<and>
      (\<forall>i<length ?recs.
         py_split CHR 0x0A (concat (map snd ?recs)) ! i = butlast (snd (?recs ! i)) \<and>
         fst (?recs ! i) = filter (accepted cfg) raws ! i)"
  proof
    assume one: "\<forall>command w. CHR 0x0A \<notin> set (py_strip (p_stdout (fst (sh command w))))"
    from records_one_line[OF one, of np cfg raws s]
    have ol: "\<forall>r\<in>set ?recs. \<exists>t. snd r = t @ nl \<and> CHR 0x0A \<notin> set t" .
    then have 1: "\<forall>r\<in>set ?recs. CHR 0x0A \<notin> set (butlast (snd r))"
      by (auto simp: nl_def)
    from ol have "\<forall>r\<in>set (map snd ?recs). \<exists>t. r = t @ [CHR 0x0A] \<and> CHR 0x0A \<notin> set t"
      by (auto simp: nl_def)
    from py_split_lines[OF this]
    have 2: "py_split CHR 0x0A (concat (map snd ?recs)) = map (\<lambda>r. butlast (snd r)) ?recs @ [[]]"
      by (simp add: comp_def)
    have 3: "\<forall>i<length ?recs.
         py_split CHR 0x0A (concat (map snd ?recs)) ! i = butlast (snd (?recs ! i)) \<and>
         fst (?recs ! i) = filter (accepted cfg) raws ! i"
    proof (intro allI impI)
      fix i assume i: "i < length ?recs"
      have a: "py_split CHR 0x0A (concat (map snd ?recs)) ! i = butlast (snd (?recs ! i))"
        unfolding 2 using i by (simp add: nth_append)
      have "fst (?recs ! i) = map fst ?recs ! i" using i by simp
      also have "\<dots> = take (length ?recs) (filter (accepted cfg) raws) ! i"
        using fsts by simp
      also have "\<dots> = filter (accepted cfg) raws ! i" using i by simp
      finally show "py_split CHR 0x0A (concat (map snd ?recs)) ! i = butlast (snd (?recs ! i)) \<and>
         fst (?recs ! i) = filter (accepted cfg) raws ! i"
        using a by simp
    qed
    from 1 2 3 show "(\<forall>r\<in>set ?recs. CHR 0x0A \<notin> set (butlast (snd r))) \<and>
      py_split CHR 0x0A (concat (map snd ?recs)) = map (\<lambda>r. butlast (snd r)) ?recs @ [[]] \<and>
      (\<forall>i<length ?recs.
         py_split CHR 0x0A (concat (map snd ?recs)) ! i = butlast (snd (?recs ! i)) \<and>
         fst (?recs ! i) = filter (accepted cfg) raws ! i)"
      by blast
  qed
  from rr hd lines show ?thesis by blast
qed

theorem output_rows_follow_accepted_rows_witness:
  "(\<forall>command w. CHR 0x0A \<notin> set (py_strip (p_stdout (fst (engine 100 ''0f3.5'' command w))))) \<and>
   status (main_loop (engine 100 ''0f3.5'') tenths design
      [''1'' @ nl, ''1,2'' @ nl, nl, ''3,4'' @ nl] (initial 0 (- 1))) = Running \<and>
   map fst (row_records (engine 100 ''0f3.5'') tenths design
      [''1'' @ nl, ''1,2'' @ nl, nl, ''3,4'' @ nl] (initial 0 (- 1))) = [''1,2'' @ nl, ''3,4'' @ nl] \<and>
   out_file (main_loop (engine 100 ''0f3.5'') tenths design
      [''1'' @ nl, ''1,2'' @ nl, nl, ''3,4'' @ nl] (initial 0 (- 1))) = ''3.5'' @ nl @ ''3.5'' @ nl \<and>
   map (\<lambda>r. butlast (snd r)) (row_records (engine 100 ''0f3.5'') tenths design
      [''1'' @ nl, ''1,2'' @ nl, nl, ''3,4'' @ nl] (initial 0 (- 1))) @ [[]] =
     [''3.5'', ''3.5'', []]"
proof -
  let ?sh = "engine 100 ''0f3.5''"
  let ?raws = "[''1'' @ nl, ''1,2'' @ nl, nl, ''3,4'' @ nl]"
  let ?s = "initial (0::nat) (- 1)"
  let ?recs = "row_records ?sh tenths design ?raws ?s"
  have one: "\<forall>command w. CHR 0x0A \<notin> set (py_strip (p_stdout (fst (?sh command w))))"
    by (simp add: engine_def py_strip_def py_isspace_def)
  have h: "status (main_loop ?sh tenths design ?raws ?s) = Running"
    by (simp add: run_defs)
  have o: "out_file (main_loop ?sh tenths design ?raws ?s) = ''3.5'' @ nl @ ''3.5'' @ nl"
    by (simp add: run_defs)
  have f: "filter (accepted design) ?raws = [''1,2'' @ nl, ''3,4'' @ nl]"
    by (simp add: run_defs)
  have o0: "out_file ?s = []" by (simp add: initial_def)
  have sp: "py_split CHR 0x0A (''3.5'' @ nl @ ''3.5'' @ nl) = [''3.5'', ''3.5'', []]"
    by (simp add: nl_def)
  note t = output_rows_follow_accepted_rows[of ?sh tenths design ?raws ?s 0 "- 1"]
  from t h have m: "map fst ?recs = filter (accepted design) ?raws"
    by blast
  from t have "out_file (main_loop ?sh tenths design ?raws ?s) = out_file ?s @ concat (map snd ?recs)"
    by blast
  then have c: "concat (map snd ?recs) = ''3.5'' @ nl @ ''3.5'' @ nl"
    unfolding o o0 by simp
  from t one have "py_split CHR 0x0A (concat (map snd ?recs)) = map (\<lambda>r. butlast (snd r)) ?recs @ [[]]"
    by blast
  then have l: "map (\<lambda>r. butlast (snd r)) ?recs @ [[]] = [''3.5'', ''3.5'', []]"
    unfolding c sp by simp
  from one h m o l show ?thesis unfolding f by blast
qed

end
